theory Spec2Isabelle
  imports Complex_Main
begin

section \<open>The resize plugin state (columnresizing part of src/src/tableNodes.ts)\<close>

text \<open>
  Pixel coordinates and dimensions are TypeScript numbers; they are modelled as reals.
  Document positions are integers, with \<open>-1\<close> as the "no active handle" value.
\<close>

datatype typePositionCell = PosRow | PosCol | PosUndefined

record Dragging =
  startPosition :: real
  startDimension :: real

text \<open>
  The field \<open>dragging\<close> is declared \<open>Dragging | false\<close>; \<open>finish\<close> also stores
  \<open>null\<close> in it through \<open>setDragging: null\<close>.
\<close>

datatype dragging_value = Drag Dragging | DragFalse | DragNull

record ResizeState =
  activeHandle :: int
  dragging :: dragging_value
  position :: typePositionCell

text \<open>
  The meta value attached to a transaction under the plugin key. \<open>setHandle = None\<close> stands
  for a missing or null \<open>setHandle\<close> (the source tests \<open>!= null\<close>), \<open>setDragging = None\<close>
  for a missing one (the source tests \<open>!== undefined\<close>).
\<close>

record Action =
  setHandle :: "int option"
  setDragging :: "dragging_value option"
  setPosition :: typePositionCell

text \<open>
  What \<open>ResizeState.apply\<close> reads of a transaction: the meta value (\<open>None\<close> when
  \<open>getMeta\<close> is falsy), \<open>docChanged\<close>, the position mapping \<open>tr.mapping.map(pos, assoc)\<close>,
  and \<open>pointsAtCell(tr.doc.resolve(pos))\<close> on the new document. The last two belong to the
  host framework and to \<open>./util\<close>; they are parameters of the model.
\<close>

record Transaction =
  meta :: "Action option"
  docChanged :: bool
  mapping_map :: "int \<Rightarrow> int \<Rightarrow> int"
  doc_pointsAtCell :: "int \<Rightarrow> bool"

definition remap_handle :: "ResizeState \<Rightarrow> Transaction \<Rightarrow> ResizeState" where
  "remap_handle state tr =
     (if activeHandle state > -1 \<and> docChanged tr then
        (let handle = mapping_map tr (activeHandle state) (-1);
             handle = (if \<not> doc_pointsAtCell tr handle then -1 else handle)
         in \<lparr>activeHandle = handle, dragging = dragging state, position = PosUndefined\<rparr>)
      else state)"

definition ResizeState_apply :: "ResizeState \<Rightarrow> Transaction \<Rightarrow> ResizeState" where
  "ResizeState_apply state tr =
     (case meta tr of
        None \<Rightarrow> remap_handle state tr
      | Some action \<Rightarrow>
          (case setHandle action of
             Some h \<Rightarrow> \<lparr>activeHandle = h, dragging = DragFalse, position = setPosition action\<rparr>
           | None \<Rightarrow>
               (case setDragging action of
                  Some d \<Rightarrow> \<lparr>activeHandle = activeHandle state, dragging = d,
                             position = setPosition action\<rparr>
                | None \<Rightarrow> remap_handle state tr)))"

record MouseEvent =
  clientX :: real
  clientY :: real

definition draggedDimension ::
    "typePositionCell \<Rightarrow> Dragging \<Rightarrow> MouseEvent \<Rightarrow> real \<Rightarrow> real" where
  "draggedDimension pos drag event cellMin =
     (let offset = (if pos = PosCol then clientX event - startPosition drag
                    else clientY event - startPosition drag)
      in max cellMin (startDimension drag + offset))"

section \<open>Errors and JavaScript arrays\<close>

text \<open>
  The exceptions the modelled code can raise: a \<open>RangeError\<close> (a position that is not in
  the grid, \<open>Array(n)\<close> with a negative length) and a \<open>TypeError\<close> (a property read on
  \<open>null\<close> or \<open>undefined\<close>).
\<close>

datatype error = RangeError | TypeError

text \<open>Reading \<open>xs[i]\<close>: \<open>None\<close> stands for \<open>undefined\<close>, the value outside the range.\<close>

definition js_at :: "'a list \<Rightarrow> int \<Rightarrow> 'a option" where
  "js_at xs i = (if 0 \<le> i \<and> i < int (length xs) then Some (xs ! nat i) else None)"

text \<open>
  A number array that can have holes (\<open>None\<close>): \<open>arr_get\<close> reads an entry, a hole and an
  index outside the range both read as \<open>undefined\<close>. \<open>js_set\<close> is the assignment
  \<open>xs[i] = v\<close>: inside the range it overwrites, beyond the end it extends the array and
  leaves holes between the old end and \<open>i\<close>. A negative \<open>i\<close> creates a property that is
  not an array element, so the elements stay as they are.
\<close>

definition arr_get :: "'a option list \<Rightarrow> int \<Rightarrow> 'a option" where
  "arr_get xs i = (if 0 \<le> i \<and> i < int (length xs) then xs ! nat i else None)"

definition js_set :: "'a option list \<Rightarrow> int \<Rightarrow> 'a \<Rightarrow> 'a option list" where
  "js_set xs i v =
     (if i < 0 then xs
      else if i < int (length xs) then xs[nat i := Some v]
      else xs @ replicate (nat i - length xs) None @ [Some v])"

text \<open>\<open>Array.prototype.indexOf\<close>; \<open>None\<close> stands for the result \<open>-1\<close>.\<close>

fun indexOf :: "int list \<Rightarrow> int \<Rightarrow> nat option" where
  "indexOf [] x = None"
| "indexOf (y # ys) x = (if y = x then Some 0 else map_option Suc (indexOf ys x))"

section \<open>The grid and the document\<close>

text \<open>
  \<open>TableMap\<close> (\<open>./tablemap\<close>): the grid's \<open>width\<close> and \<open>height\<close> and the row-major array
  \<open>map\<close> of cell positions, relative to the start of the table. The builder of the grid is
  not part of the modelled files; the grid is a parameter.
\<close>

record TableMap =
  width :: nat
  height :: nat
  map_arr :: "int list"

text \<open>
  Modelled from the spec: \<open>TableMap.colCount\<close> and \<open>TableMap.rowCount\<close> of \<open>./tablemap\<close>,
  which is missing. The spec gives \<open>columnCount(cellPosition)\<close> as the number of full grid
  columns strictly to the left of the cell's top-left slot, and \<open>rowCount(cellPosition)\<close> as
  the number of full grid rows strictly above it. The top-left slot of a cell is the first
  slot of the row-major array that holds its position; \<open>None\<close> stands for the error raised
  for a position that is in no slot.
\<close>

definition colCount :: "TableMap \<Rightarrow> int \<Rightarrow> int option" where
  "colCount m p = map_option (\<lambda>i. int (i mod width m)) (indexOf (map_arr m) p)"

definition rowCount :: "TableMap \<Rightarrow> int \<Rightarrow> int option" where
  "rowCount m p = map_option (\<lambda>i. int (i div width m)) (indexOf (map_arr m) p)"

text \<open>
  \<open>CellAttrs\<close> (\<open>./util\<close>): \<open>colspan\<close>, \<open>rowspan\<close>, \<open>colwidth\<close> (\<open>number[] | null\<close>) and the
  attributes the host adds, which the resize code only copies.
\<close>

record CellAttrs =
  colspan :: int
  rowspan :: int
  colwidth :: "real option list option"
  extra :: "(string \<times> string) list"

record CellNode =
  attrs :: CellAttrs
  nodeSize :: int

text \<open>
  A table node: its grid (\<open>TableMap.get(table)\<close>) and \<open>table.nodeAt(pos)\<close>, which is \<open>null\<close>
  where no node starts.
\<close>

record TableNode =
  tableMap :: TableMap
  nodeAt :: "int \<Rightarrow> CellNode option"

text \<open>
  What the resize code reads of \<open>doc.resolve(cell)\<close>: the table \<open>$cell.node(-1)\<close>
  (\<open>None\<close> when there is none), its start \<open>$cell.start(-1)\<close>, and the node after the
  position, which is the table's node at \<open>$cell.pos - start\<close>.
\<close>

record EditorDoc =
  tableStart :: int
  table :: "TableNode option"

definition nodeAfter :: "EditorDoc \<Rightarrow> int \<Rightarrow> CellNode option" where
  "nodeAfter d cell =
     (case table d of None \<Rightarrow> None | Some t \<Rightarrow> nodeAt t (cell - tableStart d))"

section \<open>Mouse move: finding the edge under the pointer\<close>

record DOMRect =
  left :: real
  right :: real
  top_rect :: real
  bottom :: real

datatype side = SideLeft | SideRight | SideTop | SideBottom

text \<open>
  The chain of tests of \<open>handleMouseMove\<close> on the bounding rectangle of the cell under the
  pointer: the axis it sets and the side it passes to \<open>edgeCell\<close>, or \<open>None\<close> when no
  test succeeds (\<open>cell\<close> stays \<open>-1\<close> and \<open>positionCell\<close> undefined).
\<close>

definition edgeTest :: "DOMRect \<Rightarrow> MouseEvent \<Rightarrow> real \<Rightarrow> (typePositionCell \<times> side) option" where
  "edgeTest rect event minSize =
     (if clientX event - left rect \<le> minSize then Some (PosCol, SideLeft)
      else if right rect - clientX event \<le> minSize then Some (PosCol, SideRight)
      else if top_rect rect - clientY event \<ge> - minSize then Some (PosRow, SideTop)
      else if clientY event - bottom rect \<ge> - minSize then Some (PosRow, SideBottom)
      else None)"

text \<open>\<open>!pluginState.dragging\<close>: \<open>false\<close> and \<open>null\<close> are falsy, a drag record is truthy.\<close>

fun is_dragging :: "dragging_value \<Rightarrow> bool" where
  "is_dragging (Drag _) = True"
| "is_dragging DragFalse = False"
| "is_dragging DragNull = False"

text \<open>
  The last grid column of the cell at \<open>cell\<close>:
  \<open>map.colCount($cell.pos - start) + $cell.nodeAfter.attrs.colspan - 1\<close>, as
  \<open>handleMouseMove\<close>, \<open>updateColumnWidth\<close> and \<open>displayColumnDimension\<close> compute it.
\<close>

definition lastColumn :: "EditorDoc \<Rightarrow> int \<Rightarrow> error + int" where
  "lastColumn d cell =
     (case table d of
        None \<Rightarrow> Inl TypeError
      | Some t \<Rightarrow>
          (case colCount (tableMap t) (cell - tableStart d) of
             None \<Rightarrow> Inl RangeError
           | Some c \<Rightarrow>
               (case nodeAfter d cell of
                  None \<Rightarrow> Inl TypeError
                | Some n \<Rightarrow> Inr (c + colspan (attrs n) - 1))))"

definition updateHandle :: "int \<Rightarrow> typePositionCell \<Rightarrow> Action" where
  "updateHandle v positionCell =
     \<lparr>setHandle = Some v, setDragging = None, setPosition = positionCell\<rparr>"

text \<open>
  \<open>handleMouseMove\<close>. The arguments are the plugin state (\<open>None\<close> when the plugin has
  none), the document, the result of \<open>edgeCell(view, event, side, minSize)\<close> for each side
  (it asks the host for the position under the pointer), and the bounding rectangle of
  \<open>domCellAround(event.target)\<close> (\<open>None\<close> when the pointer is over no cell). The result is
  the meta action of the transaction it dispatches, \<open>None\<close> when it dispatches nothing.
\<close>

definition handleMouseMove ::
    "ResizeState option \<Rightarrow> EditorDoc \<Rightarrow> (side \<Rightarrow> int) \<Rightarrow> DOMRect option \<Rightarrow> MouseEvent \<Rightarrow>
     real \<Rightarrow> bool \<Rightarrow> error + Action option" where
  "handleMouseMove pluginState d edgeCell target event minSize lastColumnResizable =
     (case pluginState of
        None \<Rightarrow> Inr None
      | Some ps \<Rightarrow>
          if is_dragging (dragging ps) then Inr None
          else
            (let (positionCell, cell) =
                   (case target of
                      None \<Rightarrow> (PosUndefined, -1)
                    | Some rect \<Rightarrow>
                        (case edgeTest rect event minSize of
                           None \<Rightarrow> (PosUndefined, -1)
                         | Some (axis, sd) \<Rightarrow> (axis, edgeCell sd)))
             in if cell \<noteq> activeHandle ps then
                  (if \<not> lastColumnResizable \<and> cell \<noteq> -1 then
                     (case lastColumn d cell of
                        Inl e \<Rightarrow> Inl e
                      | Inr c \<Rightarrow>
                          (case table d of
                             None \<Rightarrow> Inl TypeError
                           | Some t \<Rightarrow>
                               if c = int (width (tableMap t)) - 1 then Inr None
                               else Inr (Some (updateHandle cell positionCell))))
                   else Inr (Some (updateHandle cell positionCell)))
                else Inr None))"

section \<open>Redistribution: \<open>updateColumnWidth\<close>\<close>

text \<open>\<open>zeroes(n)\<close> is \<open>Array(n).fill(0)\<close>; \<open>Array(n)\<close> raises a RangeError for a negative \<open>n\<close>.\<close>

definition zeroes :: "int \<Rightarrow> error + real option list" where
  "zeroes n = (if n < 0 then Inl RangeError else Inr (replicate (nat n) (Some 0)))"

text \<open>
  The index of grid column \<open>col\<close> in the width sequence of the cell at \<open>p\<close>:
  \<open>attrs.colspan == 1 ? 0 : col - map.colCount(pos)\<close>; \<open>None\<close> is the RangeError of
  \<open>colCount\<close>.
\<close>

definition spanIndex :: "TableMap \<Rightarrow> int \<Rightarrow> int \<Rightarrow> CellAttrs \<Rightarrow> int option" where
  "spanIndex m col p a =
     (if colspan a = 1 then Some 0 else map_option (\<lambda>c. col - c) (colCount m p))"

text \<open>\<open>attrs.colwidth && attrs.colwidth[index] == width\<close>.\<close>

definition hasWidth :: "CellAttrs \<Rightarrow> int \<Rightarrow> real \<Rightarrow> bool" where
  "hasWidth a index w =
     (case colwidth a of None \<Rightarrow> False | Some cw \<Rightarrow> arr_get cw index = Some w)"

text \<open>
  The attributes passed to \<open>setNodeMarkup\<close>: a copy of the stored sequence, or
  \<open>zeroes(colspan)\<close> when there is none, with the entry at \<open>index\<close> assigned, in a copy of
  the cell's attributes.
\<close>

definition withWidth :: "CellAttrs \<Rightarrow> int \<Rightarrow> real \<Rightarrow> error + CellAttrs" where
  "withWidth a index w =
     (case (case colwidth a of Some cw \<Rightarrow> Inr cw | None \<Rightarrow> zeroes (colspan a)) of
        Inl e \<Rightarrow> Inl e
      | Inr cw \<Rightarrow> Inr (a\<lparr>colwidth := Some (js_set cw index w)\<rparr>))"

text \<open>
  One round of the loop of \<open>updateColumnWidth\<close> for grid row \<open>row\<close> and target column
  \<open>col\<close>: \<open>Inr None\<close> is a \<open>continue\<close>, \<open>Inr (Some (pos, attrs))\<close> is the call
  \<open>tr.setNodeMarkup(start + pos, null, attrs)\<close>. The attributes are read from the table
  as it was before the call, never from the transaction. Two \<open>undefined\<close> slots compare
  equal, as in JavaScript.
\<close>

definition updateColumnWidth_row ::
    "TableNode \<Rightarrow> int \<Rightarrow> int \<Rightarrow> real \<Rightarrow> nat \<Rightarrow> error + (int \<times> CellAttrs) option" where
  "updateColumnWidth_row t start col w row =
     (let m = tableMap t;
          mapIndex = int row * int (width m) + col
      in if row \<noteq> 0 \<and> js_at (map_arr m) mapIndex = js_at (map_arr m) (mapIndex - int (width m))
         then Inr None
         else
           (case js_at (map_arr m) mapIndex of
              None \<Rightarrow> Inl TypeError
            | Some p \<Rightarrow>
                (case nodeAt t p of
                   None \<Rightarrow> Inl TypeError
                 | Some n \<Rightarrow>
                     (case spanIndex m col p (attrs n) of
                        None \<Rightarrow> Inl RangeError
                      | Some index \<Rightarrow>
                          if hasWidth (attrs n) index w then Inr None
                          else
                            (case withWidth (attrs n) index w of
                               Inl e \<Rightarrow> Inl e
                             | Inr a \<Rightarrow> Inr (Some (start + p, a)))))))"

text \<open>The loop over the grid rows; \<open>tr\<close> collects the steps of the transaction in order.\<close>

fun updateColumnWidth_loop ::
    "TableNode \<Rightarrow> int \<Rightarrow> int \<Rightarrow> real \<Rightarrow> nat list \<Rightarrow> (int \<times> CellAttrs) list \<Rightarrow>
     error + (int \<times> CellAttrs) list" where
  "updateColumnWidth_loop t start col w [] tr = Inr tr"
| "updateColumnWidth_loop t start col w (row # rows) tr =
     (case updateColumnWidth_row t start col w row of
        Inl e \<Rightarrow> Inl e
      | Inr None \<Rightarrow> updateColumnWidth_loop t start col w rows tr
      | Inr (Some step) \<Rightarrow> updateColumnWidth_loop t start col w rows (tr @ [step]))"

text \<open>
  \<open>updateColumnWidth(view, cell, width)\<close>: the result is the list of steps of the
  transaction it dispatches, \<open>None\<close> when \<open>tr.docChanged\<close> is false (the transaction has no
  step) and nothing is dispatched.
\<close>

definition updateColumnWidth ::
    "EditorDoc \<Rightarrow> int \<Rightarrow> real \<Rightarrow> error + (int \<times> CellAttrs) list option" where
  "updateColumnWidth d cell w =
     (case table d of
        None \<Rightarrow> Inl TypeError
      | Some t \<Rightarrow>
          (case lastColumn d cell of
             Inl e \<Rightarrow> Inl e
           | Inr col \<Rightarrow>
               (case updateColumnWidth_loop t (tableStart d) col w
                       [0..<height (tableMap t)] [] of
                  Inl e \<Rightarrow> Inl e
                | Inr tr \<Rightarrow> Inr (if tr \<noteq> [] then Some tr else None))))"

text \<open>
  The host's \<open>setNodeMarkup(pos, null, attrs)\<close> on the document: the node at \<open>pos\<close> gets
  the attributes and keeps its content, so no position moves. The steps that
  \<open>updateColumnWidth\<close> issues copy \<open>colspan\<close> and \<open>rowspan\<close>, so the grid of the new table
  is the grid of the old one. \<open>dispatch\<close> applies the steps of a transaction in order.
\<close>

definition setNodeMarkup :: "EditorDoc \<Rightarrow> int \<times> CellAttrs \<Rightarrow> EditorDoc" where
  "setNodeMarkup d step =
     (case table d of
        None \<Rightarrow> d
      | Some t \<Rightarrow>
          (case nodeAt t (fst step - tableStart d) of
             None \<Rightarrow> d
           | Some n \<Rightarrow>
               d\<lparr>table := Some (t\<lparr>nodeAt :=
                 (nodeAt t)(fst step - tableStart d := Some (n\<lparr>attrs := snd step\<rparr>))\<rparr>)\<rparr>))"

definition dispatch :: "EditorDoc \<Rightarrow> (int \<times> CellAttrs) list option \<Rightarrow> EditorDoc" where
  "dispatch d tr = (case tr of None \<Rightarrow> d | Some steps \<Rightarrow> foldl setNodeMarkup d steps)"

section \<open>Decorations: \<open>handleDecorations\<close>\<close>

text \<open>\<open>Decoration.widget(pos, dom)\<close> with the class name of the \<open>div\<close> it carries.\<close>

record Decoration =
  pos :: int
  className :: string

text \<open>
  The body of the two loops: the test at grid index \<open>index\<close> is given, and a marker is
  pushed at the end of the cell in that slot.
\<close>

definition widgetAt :: "TableNode \<Rightarrow> int \<Rightarrow> int \<Rightarrow> string \<Rightarrow> error + Decoration" where
  "widgetAt t start index cls =
     (case js_at (map_arr (tableMap t)) index of
        None \<Rightarrow> Inl TypeError
      | Some cellPos \<Rightarrow>
          (case nodeAt t cellPos of
             None \<Rightarrow> Inl TypeError
           | Some n \<Rightarrow> Inr \<lparr>pos = start + cellPos + nodeSize n - 1, className = cls\<rparr>))"

definition colTest :: "TableMap \<Rightarrow> int \<Rightarrow> nat \<Rightarrow> bool" where
  "colTest m col row =
     (let index = col + int row * int (width m) - 1
      in (col = int (width m) \<or> js_at (map_arr m) index \<noteq> js_at (map_arr m) (index + 1)) \<and>
         (row = 0 \<or> js_at (map_arr m) index \<noteq> js_at (map_arr m) (index - int (width m))))"

fun colLoop :: "TableNode \<Rightarrow> int \<Rightarrow> int \<Rightarrow> nat list \<Rightarrow> Decoration list \<Rightarrow> error + Decoration list" where
  "colLoop t start col [] decorations = Inr decorations"
| "colLoop t start col (row # rows) decorations =
     (if colTest (tableMap t) col row then
        (case widgetAt t start (col + int row * int (width (tableMap t)) - 1)
                ''column-resize-handle'' of
           Inl e \<Rightarrow> Inl e
         | Inr dc \<Rightarrow> colLoop t start col rows (decorations @ [dc]))
      else colLoop t start col rows decorations)"

definition rowTest :: "TableMap \<Rightarrow> int \<Rightarrow> nat \<Rightarrow> bool" where
  "rowTest m row col =
     (let index = (row - 1) * int (width m) + int col
      in (row = int (height m) \<or>
            js_at (map_arr m) index \<noteq> js_at (map_arr m) (index + int (width m))) \<and>
         (col = 0 \<or> js_at (map_arr m) index \<noteq> js_at (map_arr m) (index - 1)))"

fun rowLoop :: "TableNode \<Rightarrow> int \<Rightarrow> int \<Rightarrow> nat list \<Rightarrow> Decoration list \<Rightarrow> error + Decoration list" where
  "rowLoop t start row [] decorations = Inr decorations"
| "rowLoop t start row (col # cols) decorations =
     (if rowTest (tableMap t) row col then
        (case widgetAt t start ((row - 1) * int (width (tableMap t)) + int col)
                ''row-resize-handle'' of
           Inl e \<Rightarrow> Inl e
         | Inr dc \<Rightarrow> rowLoop t start row cols (decorations @ [dc]))
      else rowLoop t start row cols decorations)"

text \<open>
  \<open>handleDecorations(state, cell, position)\<close>: \<open>Inr None\<close> is the \<open>undefined\<close> it returns
  for an undefined axis, \<open>Inr (Some ds)\<close> the decoration set built from the list \<open>ds\<close>
  (\<open>DecorationSet.empty\<close> is the empty list).
\<close>

definition handleDecorations ::
    "EditorDoc \<Rightarrow> int \<Rightarrow> typePositionCell \<Rightarrow> error + Decoration list option" where
  "handleDecorations d cell axis =
     (case table d of
        None \<Rightarrow> Inr (Some [])
      | Some t \<Rightarrow>
          (case axis of
             PosCol \<Rightarrow>
               (case colCount (tableMap t) (cell - tableStart d) of
                  None \<Rightarrow> Inl RangeError
                | Some c \<Rightarrow>
                    (case nodeAfter d cell of
                       None \<Rightarrow> Inl TypeError
                     | Some n \<Rightarrow>
                         map_sum id Some
                           (colLoop t (tableStart d) (c + colspan (attrs n))
                              [0..<height (tableMap t)] [])))
           | PosRow \<Rightarrow>
               (case rowCount (tableMap t) (cell - tableStart d) of
                  None \<Rightarrow> Inl RangeError
                | Some r \<Rightarrow>
                    (case nodeAfter d cell of
                       None \<Rightarrow> Inl TypeError
                     | Some n \<Rightarrow>
                         map_sum id Some
                           (rowLoop t (tableStart d) (r + rowspan (attrs n))
                              [0..<width (tableMap t)] [])))
           | PosUndefined \<Rightarrow> Inr None))"

section \<open>Schema: reading attributes from the DOM (src/unnamed/part_000)\<close>

text \<open>
  The values that the attribute readers produce: numbers (with \<open>NaN\<close> and the infinities
  that \<open>Number\<close> can return), strings, arrays of numbers, \<open>null\<close> and \<open>undefined\<close>.
\<close>

datatype jsnumber = Finite real | NaN | PosInfinity | NegInfinity

datatype jsval = Undefined | Null | Num jsnumber | Str string | NumArr "jsnumber list"

text \<open>
  The argument \<open>dom\<close> is \<open>HTMLElement | string\<close>; of an element the readers use
  \<open>getAttribute\<close> only, which is \<open>null\<close> (\<open>None\<close>) for an attribute that is not set.
\<close>

datatype dom = DomString string | HTMLElement "(string \<times> string) list"

definition getAttribute :: "(string \<times> string) list \<Rightarrow> string \<Rightarrow> string option" where
  "getAttribute el name = map_of el name"

definition is_digit :: "char \<Rightarrow> bool" where
  "is_digit c = (c \<in> set ''0123456789'')"

text \<open>
  The regular expression \<open>/^\d+(,\d+)*$/\<close> as its automaton: the flag tells whether the
  piece being read has a digit already; a comma is accepted only after a digit, and the
  string must end after a digit.
\<close>

fun digitList :: "bool \<Rightarrow> string \<Rightarrow> bool" where
  "digitList seen [] = seen"
| "digitList seen (c # cs) =
     (if is_digit c then digitList True cs
      else if c = CHR '','' \<and> seen then digitList False cs
      else False)"

definition regexTest :: "string \<Rightarrow> bool" where
  "regexTest s = digitList False s"

text \<open>\<open>s.split(',')\<close>: the pieces between the commas; the empty string gives one empty piece.\<close>

fun split_comma :: "string \<Rightarrow> string list" where
  "split_comma [] = [[]]"
| "split_comma (c # cs) =
     (if c = CHR '','' then [] # split_comma cs
      else (case split_comma cs of [] \<Rightarrow> [[c]] | p # ps \<Rightarrow> (c # p) # ps))"

text \<open>
  \<open>Number(s)\<close> for a string: the decimal value of a non-empty string of digits (the
  rounding of a long literal to a double is not modelled); for every other string the
  conversion of the language is the parameter \<open>other\<close>.
\<close>

definition decimal :: "string \<Rightarrow> nat" where
  "decimal s = foldl (\<lambda>n c. 10 * n + (of_char c - 48)) 0 s"

definition Number :: "(string \<Rightarrow> jsnumber) \<Rightarrow> string \<Rightarrow> jsnumber" where
  "Number other s =
     (if s \<noteq> [] \<and> list_all is_digit s then Finite (real (decimal s)) else other s)"

text \<open>\<open>Number(dom.getAttribute(name) || 1)\<close>: a missing or empty attribute gives \<open>1\<close>.\<close>

definition spanAttr :: "(string \<Rightarrow> jsnumber) \<Rightarrow> (string \<times> string) list \<Rightarrow> string \<Rightarrow> jsnumber" where
  "spanAttr other el name =
     (case getAttribute el name of
        None \<Rightarrow> Finite 1
      | Some s \<Rightarrow> if s = [] then Finite 1 else Number other s)"

text \<open>
  The loop over the host's extra attributes, shared by \<open>getCellAttrs\<close> and
  \<open>getRowAttrs\<close>: an attribute is a name with an optional \<open>getFromDOM\<close>, and its value is
  stored unless it is \<open>null\<close> or \<open>undefined\<close>.
\<close>

definition extraStep ::
    "(string \<times> string) list \<Rightarrow> (string \<Rightarrow> jsval option) \<Rightarrow>
     string \<times> ((string \<times> string) list \<Rightarrow> jsval) option \<Rightarrow> (string \<Rightarrow> jsval option)" where
  "extraStep el result prop =
     (case snd prop of
        None \<Rightarrow> result
      | Some getter \<Rightarrow>
          (let v = getter el
           in if v = Null \<or> v = Undefined then result else result(fst prop := Some v)))"

definition getCellAttrs ::
    "(string \<Rightarrow> jsnumber) \<Rightarrow> dom \<Rightarrow>
     (string \<times> ((string \<times> string) list \<Rightarrow> jsval) option) list \<Rightarrow> (string \<Rightarrow> jsval option)" where
  "getCellAttrs other d extraAttrs =
     (case d of
        DomString _ \<Rightarrow> Map.empty
      | HTMLElement el \<Rightarrow>
          (let widths =
                 (case getAttribute el ''data-colwidth'' of
                    None \<Rightarrow> None
                  | Some widthAttr \<Rightarrow>
                      if widthAttr \<noteq> [] \<and> regexTest widthAttr
                      then Some (map (Number other) (split_comma widthAttr))
                      else None);
               rowspanV = spanAttr other el ''rowspan'';
               colspanV = spanAttr other el ''colspan'';
               result =
                 [''colspan'' \<mapsto> Num colspanV,
                  ''rowspan'' \<mapsto> Num rowspanV,
                  ''colwidth'' \<mapsto>
                    (case widths of
                       None \<Rightarrow> Null
                     | Some ws \<Rightarrow>
                         if Finite (real (length ws)) = colspanV then NumArr ws else Null)]
           in foldl (extraStep el) result extraAttrs))"

definition getRowAttrs ::
    "dom \<Rightarrow> (string \<times> ((string \<times> string) list \<Rightarrow> jsval) option) list \<Rightarrow>
     (string \<Rightarrow> jsval option)" where
  "getRowAttrs d extraAttrs =
     (case d of
        DomString _ \<Rightarrow> Map.empty
      | HTMLElement el \<Rightarrow>
          (let result =
                 [''rowheight'' \<mapsto>
                    (case getAttribute el ''data-rowheight'' of
                       None \<Rightarrow> Null
                     | Some heightAttr \<Rightarrow>
                         if heightAttr \<noteq> [] \<and> regexTest heightAttr
                         then Str heightAttr else Null)]
           in foldl (extraStep el) result extraAttrs))"

section \<open>Notions used to state the properties\<close>

text \<open>
  The cell at \<open>p\<close> occupies a slot of grid column \<open>k\<close>: one of the slots that the loop of
  \<open>updateColumnWidth\<close> reads.
\<close>

definition inColumn :: "TableMap \<Rightarrow> int \<Rightarrow> int \<Rightarrow> bool" where
  "inColumn m k p =
     (Some p \<in> set (map (\<lambda>row. js_at (map_arr m) (int row * int (width m) + k))
                     [0..<height m]))"

text \<open>
  The width a cell stores for its \<open>j\<close>-th column. A cell without \<open>colwidth\<close> stores no
  width; it is read as the sequence \<open>zeroes(colspan)\<close> that \<open>updateColumnWidth\<close> starts
  from, zero being the value that \<open>currentColWidth\<close> treats as unset.
\<close>

definition storedWidth :: "CellAttrs \<Rightarrow> int \<Rightarrow> real option" where
  "storedWidth a j =
     (case colwidth a of
        Some cw \<Rightarrow> arr_get cw j
      | None \<Rightarrow> if 0 \<le> j \<and> j < colspan a then Some 0 else None)"

text \<open>
  The node that a step of \<open>updateColumnWidth\<close> for the cell at \<open>p\<close> leaves there: the
  old node with the attributes of \<open>withWidth\<close>.
\<close>

definition resizedAt :: "TableNode \<Rightarrow> int \<Rightarrow> real \<Rightarrow> int \<Rightarrow> CellNode option" where
  "resizedAt t k w p =
     (case nodeAt t p of
        None \<Rightarrow> None
      | Some n \<Rightarrow>
          (case spanIndex (tableMap t) k p (attrs n) of
             None \<Rightarrow> None
           | Some i \<Rightarrow>
               (case withWidth (attrs n) i w of
                  Inl e \<Rightarrow> None
                | Inr a \<Rightarrow> Some (n\<lparr>attrs := a\<rparr>))))"

text \<open>
  A step that the loop can issue for column \<open>k\<close>: it is for a cell in that column that
  does not hold the width yet, and carries the attributes of \<open>withWidth\<close>.
\<close>

definition issued :: "TableNode \<Rightarrow> int \<Rightarrow> int \<Rightarrow> real \<Rightarrow> int \<times> CellAttrs \<Rightarrow> bool" where
  "issued t start k w step =
     (case nodeAt t (fst step - start) of
        None \<Rightarrow> False
      | Some n \<Rightarrow>
          inColumn (tableMap t) k (fst step - start) \<and>
          (case spanIndex (tableMap t) k (fst step - start) (attrs n) of
             None \<Rightarrow> False
           | Some i \<Rightarrow> \<not> hasWidth (attrs n) i w \<and> withWidth (attrs n) i w = Inr (snd step)))"

text \<open>
  The invariant of the data model: \<open>colwidth\<close>, when present, has length \<open>colspan\<close>.
\<close>

definition colwidthOk :: "CellAttrs \<Rightarrow> bool" where
  "colwidthOk a =
     (case colwidth a of None \<Rightarrow> True | Some cw \<Rightarrow> int (length cw) = colspan a)"

text \<open>
  A property of every grid that the builder derives from a table: a cell that occupies a
  slot of column \<open>k\<close> has its first column at or left of \<open>k\<close> and spans \<open>k\<close>.
\<close>

definition coversColumn :: "TableNode \<Rightarrow> int \<Rightarrow> bool" where
  "coversColumn t k =
     list_all
       (\<lambda>row. case js_at (map_arr (tableMap t)) (int row * int (width (tableMap t)) + k) of
                None \<Rightarrow> True
              | Some p \<Rightarrow>
                  (case nodeAt t p of
                     None \<Rightarrow> True
                   | Some n \<Rightarrow>
                       (case colCount (tableMap t) p of
                          None \<Rightarrow> True
                        | Some c \<Rightarrow> c \<le> k \<and> k < c + colspan (attrs n))))
       [0..<height (tableMap t)]"

text \<open>
  The placement of the markers in the words of the specification. \<open>slot m r c\<close> is the
  cell of the grid slot in row \<open>r\<close> and column \<open>c\<close>. On the column axis, for the boundary
  column \<open>b\<close> (the column right after the active cell's span) and a grid row, the current
  slot is the one left of the boundary; a marker is due when the slot to its right belongs
  to another cell or the boundary is the right edge of the grid, and the slot above it
  belongs to another cell or the row is the top row. The row axis swaps the roles.
\<close>

definition slot :: "TableMap \<Rightarrow> int \<Rightarrow> int \<Rightarrow> int option" where
  "slot m r c = js_at (map_arr m) (r * int (width m) + c)"

definition specColMarker :: "TableMap \<Rightarrow> int \<Rightarrow> nat \<Rightarrow> bool" where
  "specColMarker m b row =
     ((slot m (int row) b \<noteq> slot m (int row) (b - 1) \<or> b = int (width m)) \<and>
      (slot m (int row - 1) (b - 1) \<noteq> slot m (int row) (b - 1) \<or> row = 0))"

definition specRowMarker :: "TableMap \<Rightarrow> int \<Rightarrow> nat \<Rightarrow> bool" where
  "specRowMarker m b col =
     ((slot m b (int col) \<noteq> slot m (b - 1) (int col) \<or> b = int (height m)) \<and>
      (slot m (b - 1) (int col - 1) \<noteq> slot m (b - 1) (int col) \<or> col = 0))"

text \<open>The marker at the end of the cell at \<open>p\<close>.\<close>

definition markerOf :: "TableNode \<Rightarrow> int \<Rightarrow> string \<Rightarrow> int option \<Rightarrow> Decoration \<Rightarrow> bool" where
  "markerOf t start cls cellPos dc =
     (case cellPos of
        None \<Rightarrow> False
      | Some p \<Rightarrow>
          (case nodeAt t p of
             None \<Rightarrow> False
           | Some n \<Rightarrow> dc = \<lparr>pos = start + p + nodeSize n - 1, className = cls\<rparr>))"

text \<open>
  The cell at \<open>a\<close> spans two columns and two rows: it occupies the slots of rows \<open>r0\<close>,
  \<open>r0 + 1\<close> and columns \<open>c0\<close>, \<open>c0 + 1\<close> of the grid and no other slot.
\<close>

definition blockAt :: "TableMap \<Rightarrow> int \<Rightarrow> nat \<Rightarrow> nat \<Rightarrow> bool" where
  "blockAt m a r0 c0 =
     (r0 + 2 \<le> height m \<and> c0 + 2 \<le> width m \<and>
      list_all
        (\<lambda>r. list_all
               (\<lambda>c. (slot m (int r) (int c) = Some a) =
                     ((r = r0 \<or> r = r0 + 1) \<and> (c = c0 \<or> c = c0 + 1)))
               [0..<width m])
        [0..<height m])"

text \<open>
  No other cell of the grid ends where the cell at \<open>a\<close> ends, as in every document: cells
  do not overlap.
\<close>

definition endsDistinct :: "TableNode \<Rightarrow> int \<Rightarrow> bool" where
  "endsDistinct t a =
     list_all
       (\<lambda>p. p = a \<or>
            (case nodeAt t p of
               None \<Rightarrow> True
             | Some n \<Rightarrow>
                 (case nodeAt t a of
                    None \<Rightarrow> True
                  | Some na \<Rightarrow> p + nodeSize n \<noteq> a + nodeSize na)))
       (map_arr (tableMap t))"

section \<open>Example documents\<close>

text \<open>
  A table of two rows and three columns, starting at document position 1. The cell of the
  first row spans the three columns and stores the widths 10, 20 and 30; the three cells of
  the second row store no width. Every cell holds one empty paragraph (node size 4).
\<close>

definition ex_cell :: "int \<Rightarrow> int \<Rightarrow> real option list option \<Rightarrow> CellNode" where
  "ex_cell cs rs cw =
     \<lparr>attrs = \<lparr>colspan = cs, rowspan = rs, colwidth = cw, extra = []\<rparr>, nodeSize = 4\<rparr>"

definition span_table :: TableNode where
  "span_table =
     \<lparr>tableMap = \<lparr>width = 3, height = 2, map_arr = [1, 1, 1, 7, 11, 15]\<rparr>,
      nodeAt = map_of
        [(1, ex_cell 3 1 (Some [Some 10, Some 20, Some 30])),
         (7, ex_cell 1 1 None), (11, ex_cell 1 1 None), (15, ex_cell 1 1 None)]\<rparr>"

definition span_doc :: EditorDoc where
  "span_doc = \<lparr>tableStart = 1, table = Some span_table\<rparr>"

text \<open>
  A grid of three rows and three columns whose first cell spans two columns and two rows.
\<close>

definition block_table :: TableNode where
  "block_table =
     \<lparr>tableMap = \<lparr>width = 3, height = 3, map_arr = [1, 1, 5, 1, 1, 11, 17, 21, 25]\<rparr>,
      nodeAt = map_of
        [(1, ex_cell 2 2 None), (5, ex_cell 1 1 None), (11, ex_cell 1 1 None),
         (17, ex_cell 1 1 None), (21, ex_cell 1 1 None), (25, ex_cell 1 1 None)]\<rparr>"

definition block_doc :: EditorDoc where
  "block_doc = \<lparr>tableStart = 1, table = Some block_table\<rparr>"

text \<open>States and transactions of the plugin.\<close>

definition ex_state :: ResizeState where
  "ex_state = \<lparr>activeHandle = 5, dragging = DragFalse, position = PosCol\<rparr>"

definition ex_shift :: Transaction where
  "ex_shift =
     \<lparr>meta = None, docChanged = True,
      mapping_map = (\<lambda>p assoc. if p < 2 then p else p + 3),
      doc_pointsAtCell = (\<lambda>p. p = 8)\<rparr>"

definition ex_delete :: Transaction where
  "ex_delete =
     \<lparr>meta = None, docChanged = True,
      mapping_map = (\<lambda>p assoc. if p < 2 then p else 2),
      doc_pointsAtCell = (\<lambda>p. False)\<rparr>"

text \<open>
  An idle plugin state, the bounding rectangle of a cell, and an \<open>edgeCell\<close> that answers
  with a different position for each side.
\<close>

definition idle_state :: ResizeState where
  "idle_state = \<lparr>activeHandle = -1, dragging = DragFalse, position = PosUndefined\<rparr>"

definition ex_rect :: DOMRect where
  "ex_rect = \<lparr>left = 100, right = 200, top_rect = 50, bottom = 80\<rparr>"

definition ex_edgeCell :: "side \<Rightarrow> int" where
  "ex_edgeCell sd =
     (case sd of SideLeft \<Rightarrow> 10 | SideRight \<Rightarrow> 20 | SideTop \<Rightarrow> 30 | SideBottom \<Rightarrow> 40)"

section \<open>Lemmas about the redistribution\<close>

lemma arr_get_js_set_other: "j \<noteq> i \<Longrightarrow> arr_get (js_set xs i v) j = arr_get xs j"
  by (auto simp: arr_get_def js_set_def nth_append nth_list_update)

lemma arr_get_js_set_same: "0 \<le> i \<Longrightarrow> arr_get (js_set xs i v) i = Some v"
  by (auto simp: arr_get_def js_set_def nth_append)

lemma arr_get_zeroes:
  "arr_get (replicate (nat c) (Some (0::real))) j = (if 0 \<le> j \<and> j < c then Some 0 else None)"
  by (auto simp: arr_get_def)

lemma withWidth_cases:
  assumes "withWidth a i w = Inr a'"
  obtains cw where "colwidth a = Some cw" and "a' = a\<lparr>colwidth := Some (js_set cw i w)\<rparr>"
  | "colwidth a = None" and "0 \<le> colspan a"
    and "a' = a\<lparr>colwidth := Some (js_set (replicate (nat (colspan a)) (Some 0)) i w)\<rparr>"
  using assms by (auto simp: withWidth_def zeroes_def split: option.splits if_splits)

lemma withWidth_spans:
  assumes "withWidth a i w = Inr a'"
  shows "colspan a' = colspan a \<and> rowspan a' = rowspan a \<and> extra a' = extra a
         \<and> colwidth a' \<noteq> None"
  using assms by (rule withWidth_cases) simp_all

lemma withWidth_other:
  assumes "withWidth a i w = Inr a'" and "j \<noteq> i"
  shows "storedWidth a' j = storedWidth a j"
  using assms(1)
proof (rule withWidth_cases)
  fix cw assume "colwidth a = Some cw" and "a' = a\<lparr>colwidth := Some (js_set cw i w)\<rparr>"
  then show ?thesis using assms(2) by (simp add: storedWidth_def arr_get_js_set_other)
next
  assume "colwidth a = None" and "0 \<le> colspan a"
    and "a' = a\<lparr>colwidth := Some (js_set (replicate (nat (colspan a)) (Some 0)) i w)\<rparr>"
  then show ?thesis using assms(2)
    by (simp add: storedWidth_def arr_get_js_set_other arr_get_zeroes)
qed

lemma withWidth_has:
  assumes "withWidth a i w = Inr a'" and "0 \<le> i"
  shows "hasWidth a' i w"
  using assms(1) by (rule withWidth_cases) (simp_all add: hasWidth_def arr_get_js_set_same assms(2))

lemma inColumn_row:
  assumes "row < height m" and "js_at (map_arr m) (int row * int (width m) + k) = Some p"
  shows "inColumn m k p"
proof -
  have "row \<in> set [0..<height m]" using assms(1) by simp
  then have "(\<lambda>row. js_at (map_arr m) (int row * int (width m) + k)) row
      \<in> (\<lambda>row. js_at (map_arr m) (int row * int (width m) + k)) ` set [0..<height m]"
    by (rule imageI)
  then show ?thesis using assms(2) by (simp add: inColumn_def)
qed

lemma row_issued:
  assumes "updateColumnWidth_row t start k w row = Inr (Some step)" and "row < height (tableMap t)"
  shows "issued t start k w step"
proof -
  let ?m = "tableMap t"
  let ?ix = "int row * int (width ?m) + k"
  from assms(1) obtain p n i a where
    p: "js_at (map_arr ?m) ?ix = Some p" and n: "nodeAt t p = Some n"
    and i: "spanIndex ?m k p (attrs n) = Some i" and h: "\<not> hasWidth (attrs n) i w"
    and a: "withWidth (attrs n) i w = Inr a" and s: "step = (start + p, a)"
    by (auto simp: updateColumnWidth_row_def Let_def split: if_splits option.splits sum.splits)
  have "inColumn ?m k p" using assms(2) p by (rule inColumn_row)
  then show ?thesis using n i h a s by (simp add: issued_def)
qed

lemma loop_issued:
  assumes "updateColumnWidth_loop t start k w rows acc = Inr tr"
    and "\<forall>row \<in> set rows. row < height (tableMap t)"
    and "\<forall>st \<in> set acc. issued t start k w st"
  shows "\<forall>st \<in> set tr. issued t start k w st"
  using assms
proof (induction rows arbitrary: acc)
  case Nil
  then show ?case by simp
next
  case (Cons row rows)
  have rows: "\<forall>r \<in> set rows. r < height (tableMap t)" and row: "row < height (tableMap t)"
    using Cons.prems(2) by simp_all
  show ?case
  proof (cases "updateColumnWidth_row t start k w row")
    case (Inl e)
    with Cons.prems(1) show ?thesis by simp
  next
    case (Inr r)
    show ?thesis
    proof (cases r)
      case None
      with Inr Cons.prems(1) have "updateColumnWidth_loop t start k w rows acc = Inr tr" by simp
      then show ?thesis using rows Cons.prems(3) by (rule Cons.IH)
    next
      case (Some st)
      with Inr have "updateColumnWidth_row t start k w row = Inr (Some st)" by simp
      then have "issued t start k w st" using row by (rule row_issued)
      then have acc: "\<forall>s \<in> set (acc @ [st]). issued t start k w s"
        using Cons.prems(3) by simp
      from Inr Some Cons.prems(1)
      have "updateColumnWidth_loop t start k w rows (acc @ [st]) = Inr tr" by simp
      then show ?thesis using rows acc by (rule Cons.IH)
    qed
  qed
qed

lemma issued_resizedAt:
  assumes "issued t s k w st"
  obtains n where "nodeAt t (fst st - s) = Some n"
    and "resizedAt t k w (fst st - s) = Some (n\<lparr>attrs := snd st\<rparr>)"
    and "inColumn (tableMap t) k (fst st - s)"
  using assms by (auto simp: issued_def resizedAt_def split: option.splits)

lemma foldl_setNodeMarkup:
  assumes "table d = Some t" and "\<forall>st \<in> set steps. issued t (tableStart d) k w st"
  shows "\<exists>t'. table (foldl setNodeMarkup d steps) = Some t'
          \<and> tableStart (foldl setNodeMarkup d steps) = tableStart d
          \<and> tableMap t' = tableMap t
          \<and> (\<forall>p. nodeAt t' p =
                (if tableStart d + p \<in> fst ` set steps then resizedAt t k w p else nodeAt t p))"
  using assms(2)
proof (induction steps rule: rev_induct)
  case Nil
  then show ?case using assms(1) by simp
next
  case (snoc x xs)
  let ?d1 = "foldl setNodeMarkup d xs"
  let ?s = "tableStart d"
  let ?q = "fst x - ?s"
  have "\<forall>st \<in> set xs. issued t ?s k w st" using snoc.prems by simp
  then obtain t1 where t1: "table ?d1 = Some t1" and s1: "tableStart ?d1 = ?s"
    and m1: "tableMap t1 = tableMap t"
    and n1: "\<And>p. nodeAt t1 p =
                (if ?s + p \<in> fst ` set xs then resizedAt t k w p else nodeAt t p)"
    using snoc.IH by blast
  have "issued t ?s k w x" using snoc.prems by simp
  then obtain n where n: "nodeAt t ?q = Some n"
    and r: "resizedAt t k w ?q = Some (n\<lparr>attrs := snd x\<rparr>)"
    by (rule issued_resizedAt)
  have "\<exists>n'. nodeAt t1 ?q = Some n' \<and> n'\<lparr>attrs := snd x\<rparr> = n\<lparr>attrs := snd x\<rparr>"
    using n r n1 [of ?q] by auto
  then obtain n' where n': "nodeAt t1 ?q = Some n'"
    and e: "n'\<lparr>attrs := snd x\<rparr> = n\<lparr>attrs := snd x\<rparr>" by blast
  let ?t2 = "t1\<lparr>nodeAt := (nodeAt t1)(?q := Some (n\<lparr>attrs := snd x\<rparr>))\<rparr>"
  have d2: "setNodeMarkup ?d1 x = ?d1\<lparr>table := Some ?t2\<rparr>"
    using t1 s1 n' e by (simp add: setNodeMarkup_def)
  have "\<forall>p. nodeAt ?t2 p =
          (if ?s + p \<in> fst ` set (xs @ [x]) then resizedAt t k w p else nodeAt t p)"
  proof
    fix p
    show "nodeAt ?t2 p =
          (if ?s + p \<in> fst ` set (xs @ [x]) then resizedAt t k w p else nodeAt t p)"
    proof (cases "p = ?q")
      case True
      then show ?thesis using r by simp
    next
      case False
      then have "?s + p \<noteq> fst x" by simp
      then show ?thesis using False n1 [of p] by simp
    qed
  qed
  then show ?case using d2 s1 m1 by simp
qed

lemma updateColumnWidth_steps:
  assumes "updateColumnWidth d cell w = Inr tr" and "table d = Some t"
    and "lastColumn d cell = Inr k"
  obtains steps where
    "updateColumnWidth_loop t (tableStart d) k w [0..<height (tableMap t)] [] = Inr steps"
    and "tr = (if steps \<noteq> [] then Some steps else None)"
    and "dispatch d tr = foldl setNodeMarkup d steps"
    and "\<forall>st \<in> set steps. issued t (tableStart d) k w st"
proof -
  from assms obtain steps where
    l: "updateColumnWidth_loop t (tableStart d) k w [0..<height (tableMap t)] [] = Inr steps"
    and tr: "tr = (if steps \<noteq> [] then Some steps else None)"
    by (auto simp: updateColumnWidth_def split: sum.splits)
  have "\<forall>row \<in> set [0..<height (tableMap t)]. row < height (tableMap t)" by simp
  moreover have "\<forall>st \<in> set ([] :: (int \<times> CellAttrs) list). issued t (tableStart d) k w st"
    by simp
  ultimately have i: "\<forall>st \<in> set steps. issued t (tableStart d) k w st"
    using l by (rule loop_issued [rotated])
  have "dispatch d tr = foldl setNodeMarkup d steps" using tr by (simp add: dispatch_def)
  then show ?thesis using l tr i that by blast
qed

lemma dispatch_nodeAt:
  assumes "updateColumnWidth d cell w = Inr tr" and "table d = Some t"
    and "lastColumn d cell = Inr k"
  obtains t' steps where "table (dispatch d tr) = Some t'"
    and "tableStart (dispatch d tr) = tableStart d"
    and "tableMap t' = tableMap t"
    and "updateColumnWidth_loop t (tableStart d) k w [0..<height (tableMap t)] [] = Inr steps"
    and "tr = (if steps \<noteq> [] then Some steps else None)"
    and "\<forall>st \<in> set steps. issued t (tableStart d) k w st"
    and "\<And>p. nodeAt t' p =
          (if tableStart d + p \<in> fst ` set steps then resizedAt t k w p else nodeAt t p)"
proof -
  from assms obtain steps where
    l: "updateColumnWidth_loop t (tableStart d) k w [0..<height (tableMap t)] [] = Inr steps"
    and tr: "tr = (if steps \<noteq> [] then Some steps else None)"
    and dp: "dispatch d tr = foldl setNodeMarkup d steps"
    and i: "\<forall>st \<in> set steps. issued t (tableStart d) k w st"
    by (rule updateColumnWidth_steps)
  from foldl_setNodeMarkup [OF assms(2) i] dp obtain t' where
    "table (dispatch d tr) = Some t'" "tableStart (dispatch d tr) = tableStart d"
    "tableMap t' = tableMap t"
    "\<forall>p. nodeAt t' p =
          (if tableStart d + p \<in> fst ` set steps then resizedAt t k w p else nodeAt t p)"
    by auto
  then show ?thesis using l tr i that by blast
qed

lemma resizedAt_frame:
  assumes "nodeAt t p = Some n" and "resizedAt t k w p = Some n'"
  shows "nodeSize n' = nodeSize n \<and> colspan (attrs n') = colspan (attrs n)
       \<and> rowspan (attrs n') = rowspan (attrs n) \<and> extra (attrs n') = extra (attrs n)
       \<and> (\<forall>i j. spanIndex (tableMap t) k p (attrs n) = Some i \<and> j \<noteq> i
            \<longrightarrow> storedWidth (attrs n') j = storedWidth (attrs n) j)
       \<and> (\<forall>i. spanIndex (tableMap t) k p (attrs n) = Some i \<and> 0 \<le> i
            \<longrightarrow> hasWidth (attrs n') i w)"
proof -
  from assms obtain i a where i: "spanIndex (tableMap t) k p (attrs n) = Some i"
    and a: "withWidth (attrs n) i w = Inr a" and n': "n' = n\<lparr>attrs := a\<rparr>"
    by (auto simp: resizedAt_def split: option.splits sum.splits)
  show ?thesis
    using i n' withWidth_spans [OF a] withWidth_other [OF a] withWidth_has [OF a] by simp
qed

lemma node_after_dispatch:
  assumes "updateColumnWidth d cell w = Inr tr" and "table d = Some t"
    and "lastColumn d cell = Inr k" and "table (dispatch d tr) = Some t'"
  shows "nodeAt t' p = nodeAt t p
       \<or> (inColumn (tableMap t) k p \<and> nodeAt t' p = resizedAt t k w p
           \<and> nodeAt t p \<noteq> None \<and> resizedAt t k w p \<noteq> None)"
proof -
  from assms(1-3) obtain t2 steps where t2: "table (dispatch d tr) = Some t2"
    and i: "\<forall>st \<in> set steps. issued t (tableStart d) k w st"
    and n: "\<And>p. nodeAt t2 p =
          (if tableStart d + p \<in> fst ` set steps then resizedAt t k w p else nodeAt t p)"
    by (rule dispatch_nodeAt) blast
  have eq: "t2 = t'" using t2 assms(4) by simp
  show ?thesis
  proof (cases "tableStart d + p \<in> fst ` set steps")
    case False
    then show ?thesis using n [of p] eq by simp
  next
    case True
    then obtain st where st: "st \<in> set steps" and f: "fst st = tableStart d + p" by auto
    have "issued t (tableStart d) k w st" using i st by simp
    then obtain nd where "nodeAt t (fst st - tableStart d) = Some nd"
      and "resizedAt t k w (fst st - tableStart d) = Some (nd\<lparr>attrs := snd st\<rparr>)"
      and "inColumn (tableMap t) k (fst st - tableStart d)"
      by (rule issued_resizedAt)
    then show ?thesis using True n [of p] eq f by simp
  qed
qed

lemmas span_defs = span_doc_def span_table_def ex_cell_def

lemma span_steps:
  "updateColumnWidth span_doc 12 150 = Inr (Some
     [(2, \<lparr>colspan = 3, rowspan = 1, colwidth = Some [Some 10, Some 150, Some 30], extra = []\<rparr>),
      (12, \<lparr>colspan = 1, rowspan = 1, colwidth = Some [Some 150], extra = []\<rparr>)])"
  by (simp add: updateColumnWidth_def updateColumnWidth_row_def lastColumn_def colCount_def
      nodeAfter_def span_defs js_at_def arr_get_def js_set_def spanIndex_def hasWidth_def
      withWidth_def zeroes_def upt_rec)

lemma loop_acc:
  assumes "updateColumnWidth_loop t start k w rows acc = Inr tr"
  shows "set acc \<subseteq> set tr"
  using assms
proof (induction rows arbitrary: acc)
  case Nil
  then show ?case by simp
next
  case (Cons x xs)
  show ?case
  proof (cases "updateColumnWidth_row t start k w x")
    case (Inl e)
    with Cons.prems show ?thesis by simp
  next
    case (Inr r)
    show ?thesis
    proof (cases r)
      case None
      with Inr Cons.prems have "updateColumnWidth_loop t start k w xs acc = Inr tr" by simp
      then show ?thesis by (rule Cons.IH)
    next
      case (Some st)
      with Inr Cons.prems
      have "updateColumnWidth_loop t start k w xs (acc @ [st]) = Inr tr" by simp
      then have "set (acc @ [st]) \<subseteq> set tr" by (rule Cons.IH)
      then show ?thesis by simp
    qed
  qed
qed

lemma loop_rows:
  assumes "updateColumnWidth_loop t start k w rows acc = Inr tr" and "row \<in> set rows"
  shows "\<exists>r. updateColumnWidth_row t start k w row = Inr r
            \<and> (\<forall>st. r = Some st \<longrightarrow> st \<in> set tr)"
  using assms
proof (induction rows arbitrary: acc)
  case Nil
  then show ?case by simp
next
  case (Cons x xs)
  show ?case
  proof (cases "updateColumnWidth_row t start k w x")
    case (Inl e)
    with Cons.prems show ?thesis by simp
  next
    case (Inr r)
    show ?thesis
    proof (cases r)
      case None
      with Inr Cons.prems(1)
      have l: "updateColumnWidth_loop t start k w xs acc = Inr tr" by simp
      show ?thesis
      proof (cases "row = x")
        case True
        then show ?thesis using Inr None by simp
      next
        case False
        then have "row \<in> set xs" using Cons.prems(2) by simp
        with l show ?thesis by (rule Cons.IH)
      qed
    next
      case (Some st)
      with Inr Cons.prems(1)
      have l: "updateColumnWidth_loop t start k w xs (acc @ [st]) = Inr tr" by simp
      show ?thesis
      proof (cases "row = x")
        case True
        have "st \<in> set tr" using loop_acc [OF l] by simp
        then show ?thesis using True Inr Some by auto
      next
        case False
        then have "row \<in> set xs" using Cons.prems(2) by simp
        with l show ?thesis by (rule Cons.IH)
      qed
    qed
  qed
qed

lemma loop_all_continue:
  assumes "\<forall>row \<in> set rows. updateColumnWidth_row t start k w row = Inr None"
  shows "updateColumnWidth_loop t start k w rows acc = Inr acc"
  using assms by (induction rows) simp_all

lemma coversColumn_index:
  assumes "coversColumn t k" and "row < height (tableMap t)"
    and "js_at (map_arr (tableMap t)) (int row * int (width (tableMap t)) + k) = Some p"
    and "nodeAt t p = Some n" and "spanIndex (tableMap t) k p (attrs n) = Some i"
  shows "0 \<le> i \<and> i < colspan (attrs n)"
proof -
  have "row \<in> set [0..<height (tableMap t)]" using assms(2) by simp
  then have "case js_at (map_arr (tableMap t)) (int row * int (width (tableMap t)) + k) of
                None \<Rightarrow> True
              | Some p \<Rightarrow>
                  (case nodeAt t p of
                     None \<Rightarrow> True
                   | Some n \<Rightarrow>
                       (case colCount (tableMap t) p of
                          None \<Rightarrow> True
                        | Some c \<Rightarrow> c \<le> k \<and> k < c + colspan (attrs n)))"
    using assms(1) unfolding coversColumn_def list_all_iff by blast
  then have "case colCount (tableMap t) p of
               None \<Rightarrow> True | Some c \<Rightarrow> c \<le> k \<and> k < c + colspan (attrs n)"
    using assms(3,4) by simp
  then show ?thesis using assms(5)
    by (auto simp: spanIndex_def split: if_splits option.splits)
qed

lemma row_cases:
  assumes "updateColumnWidth_row t s k w row = Inr r"
  obtains (skip) "row \<noteq> 0"
      and "js_at (map_arr (tableMap t)) (int row * int (width (tableMap t)) + k) =
           js_at (map_arr (tableMap t))
             (int row * int (width (tableMap t)) + k - int (width (tableMap t)))"
      and "r = None"
  | (has) p n i where
      "\<not> (row \<noteq> 0 \<and>
          js_at (map_arr (tableMap t)) (int row * int (width (tableMap t)) + k) =
          js_at (map_arr (tableMap t))
            (int row * int (width (tableMap t)) + k - int (width (tableMap t))))"
      and "js_at (map_arr (tableMap t)) (int row * int (width (tableMap t)) + k) = Some p"
      and "nodeAt t p = Some n" and "spanIndex (tableMap t) k p (attrs n) = Some i"
      and "hasWidth (attrs n) i w" and "r = None"
  | (step) p n i a where
      "\<not> (row \<noteq> 0 \<and>
          js_at (map_arr (tableMap t)) (int row * int (width (tableMap t)) + k) =
          js_at (map_arr (tableMap t))
            (int row * int (width (tableMap t)) + k - int (width (tableMap t))))"
      and "js_at (map_arr (tableMap t)) (int row * int (width (tableMap t)) + k) = Some p"
      and "nodeAt t p = Some n" and "spanIndex (tableMap t) k p (attrs n) = Some i"
      and "\<not> hasWidth (attrs n) i w" and "withWidth (attrs n) i w = Inr a"
      and "r = Some (s + p, a)"
  using assms
  by (auto simp: updateColumnWidth_row_def Let_def split: if_splits option.splits sum.splits)

lemma row_continue:
  assumes "js_at (map_arr (tableMap t)) (int row * int (width (tableMap t)) + k) = Some p"
    and "nodeAt t p = Some n" and "spanIndex (tableMap t) k p (attrs n) = Some i"
    and "hasWidth (attrs n) i w"
  shows "updateColumnWidth_row t s k w row = Inr None"
  using assms by (simp add: updateColumnWidth_row_def Let_def)

lemma row_skip:
  assumes "row \<noteq> 0"
    and "js_at (map_arr (tableMap t)) (int row * int (width (tableMap t)) + k) =
         js_at (map_arr (tableMap t))
           (int row * int (width (tableMap t)) + k - int (width (tableMap t)))"
  shows "updateColumnWidth_row t s k w row = Inr None"
  using assms by (simp add: updateColumnWidth_row_def Let_def)

lemma second_row:
  assumes u: "updateColumnWidth d cell w = Inr tr" and t: "table d = Some t"
    and k: "lastColumn d cell = Inr k" and t': "table (dispatch d tr) = Some t'"
    and c: "coversColumn t k" and row: "row < height (tableMap t)"
  shows "updateColumnWidth_row t' (tableStart d) k w row = Inr None"
proof -
  let ?s = "tableStart d"
  from u t k obtain t2 steps where t2: "table (dispatch d tr) = Some t2"
    and m2: "tableMap t2 = tableMap t"
    and l: "updateColumnWidth_loop t ?s k w [0..<height (tableMap t)] [] = Inr steps"
    and n2: "\<And>p. nodeAt t2 p =
          (if ?s + p \<in> fst ` set steps then resizedAt t k w p else nodeAt t p)"
    by (rule dispatch_nodeAt) blast
  have eq: "t2 = t'" using t2 t' by simp
  have m: "tableMap t' = tableMap t" using m2 eq by simp
  have "row \<in> set [0..<height (tableMap t)]" using row by simp
  with l obtain r where r: "updateColumnWidth_row t ?s k w row = Inr r"
    and inr: "\<And>st. r = Some st \<Longrightarrow> st \<in> set steps"
    using loop_rows [of t ?s k w "[0..<height (tableMap t)]" "[]" steps row] by blast
  from r show ?thesis
  proof (cases rule: row_cases)
    case skip
    then show ?thesis using m by (simp add: row_skip)
  next
    case (has p n i)
    have i0: "0 \<le> i" using coversColumn_index [OF c row has(2,3,4)] by simp
    have "\<exists>n'. nodeAt t' p = Some n' \<and> spanIndex (tableMap t) k p (attrs n') = Some i
              \<and> hasWidth (attrs n') i w"
    proof (cases "?s + p \<in> fst ` set steps")
      case False
      then show ?thesis using n2 [of p] eq has by simp
    next
      case True
      then obtain st where "st \<in> set steps" and "fst st = ?s + p" by auto
      moreover have "\<forall>st \<in> set steps. issued t ?s k w st"
        using loop_issued [OF l] by simp
      ultimately have "issued t ?s k w st" by simp
      then show ?thesis using \<open>fst st = ?s + p\<close> has by (simp add: issued_def)
    qed
    then obtain n' where "nodeAt t' p = Some n'"
      and "spanIndex (tableMap t') k p (attrs n') = Some i" and "hasWidth (attrs n') i w"
      using m by auto
    moreover have "js_at (map_arr (tableMap t')) (int row * int (width (tableMap t')) + k) = Some p"
      using has(2) m by simp
    ultimately show ?thesis by (simp add: row_continue)
  next
    case (step p n i a)
    have i0: "0 \<le> i" using coversColumn_index [OF c row step(2,3,4)] by simp
    have "(?s + p, a) \<in> set steps" using inr step(7) by simp
    then have "?s + p \<in> fst ` set steps" by force
    then have "nodeAt t' p = resizedAt t k w p" using n2 [of p] eq by simp
    then have n': "nodeAt t' p = Some (n\<lparr>attrs := a\<rparr>)"
      using step by (simp add: resizedAt_def)
    have "colspan a = colspan (attrs n)" using withWidth_spans [OF step(6)] by simp
    then have "spanIndex (tableMap t') k p a = Some i"
      using step(4) m by (simp add: spanIndex_def)
    moreover have "hasWidth a i w" using step(6) i0 by (rule withWidth_has)
    moreover have "js_at (map_arr (tableMap t')) (int row * int (width (tableMap t')) + k) = Some p"
      using step(2) m by simp
    ultimately show ?thesis using n' row_continue [of t' row k p "n\<lparr>attrs := a\<rparr>" i w ?s] by simp
  qed
qed

lemma lastColumn_dispatch:
  assumes u: "updateColumnWidth d cell w = Inr tr" and t: "table d = Some t"
    and k: "lastColumn d cell = Inr k"
  shows "lastColumn (dispatch d tr) cell = Inr k"
proof -
  let ?s = "tableStart d"
  from u t k obtain t' where t': "table (dispatch d tr) = Some t'"
    and s': "tableStart (dispatch d tr) = ?s" and m: "tableMap t' = tableMap t"
    by (rule dispatch_nodeAt) blast
  from k t obtain c n where c: "colCount (tableMap t) (cell - ?s) = Some c"
    and n: "nodeAt t (cell - ?s) = Some n" and kk: "k = c + colspan (attrs n) - 1"
    by (auto simp: lastColumn_def nodeAfter_def split: option.splits)
  have "\<exists>n'. nodeAt t' (cell - ?s) = Some n' \<and> colspan (attrs n') = colspan (attrs n)"
  proof -
    from node_after_dispatch [OF u t k t', of "cell - ?s"]
    consider "nodeAt t' (cell - ?s) = Some n"
      | n' where "nodeAt t' (cell - ?s) = Some n'" and "resizedAt t k w (cell - ?s) = Some n'"
      using n by auto
    then show ?thesis
    proof cases
      case 1
      then show ?thesis by simp
    next
      case 2
      then show ?thesis using resizedAt_frame [OF n 2(2)] by simp
    qed
  qed
  then show ?thesis using t' s' m c kk by (auto simp: lastColumn_def nodeAfter_def)
qed

lemma second_run:
  assumes u: "updateColumnWidth d cell w = Inr tr" and t: "table d = Some t"
    and k: "lastColumn d cell = Inr k" and c: "coversColumn t k"
  shows "updateColumnWidth (dispatch d tr) cell w = Inr None"
proof -
  from u t k obtain t' where t': "table (dispatch d tr) = Some t'"
    and s': "tableStart (dispatch d tr) = tableStart d" and m: "tableMap t' = tableMap t"
    by (rule dispatch_nodeAt) blast
  have "\<forall>row \<in> set [0..<height (tableMap t)].
          updateColumnWidth_row t' (tableStart d) k w row = Inr None"
    using second_row [OF u t k t' c] by simp
  then have "updateColumnWidth_loop t' (tableStart d) k w [0..<height (tableMap t)] [] = Inr []"
    by (rule loop_all_continue)
  then show ?thesis
    using t' s' m lastColumn_dispatch [OF u t k] by (simp add: updateColumnWidth_def)
qed

lemma inColumn_slot:
  assumes "inColumn m k p"
  obtains row where "row < height m"
    and "js_at (map_arr m) (int row * int (width m) + k) = Some p"
  using assms by (auto simp: inColumn_def)

lemma length_js_set:
  "0 \<le> i \<Longrightarrow> i < int (length xs) \<Longrightarrow> length (js_set xs i v) = length xs"
  by (simp add: js_set_def)

lemma withWidth_colwidthOk:
  assumes "withWidth a i w = Inr a'" and "colwidthOk a" and "0 \<le> i" and "i < colspan a"
  shows "colwidthOk a'"
  using assms(1)
proof (rule withWidth_cases)
  fix cw assume c: "colwidth a = Some cw" and a': "a' = a\<lparr>colwidth := Some (js_set cw i w)\<rparr>"
  have "int (length cw) = colspan a" using assms(2) c by (simp add: colwidthOk_def)
  then show ?thesis using a' assms(3,4) by (simp add: colwidthOk_def length_js_set)
next
  assume "colwidth a = None" and "0 \<le> colspan a"
    and a': "a' = a\<lparr>colwidth := Some (js_set (replicate (nat (colspan a)) (Some 0)) i w)\<rparr>"
  then show ?thesis using assms(3,4) by (simp add: colwidthOk_def length_js_set)
qed

lemma issued_colwidthOk:
  assumes i: "issued t s k w st" and c: "coversColumn t k"
    and ok: "\<And>p n. nodeAt t p = Some n \<Longrightarrow> colwidthOk (attrs n)"
  shows "colwidthOk (snd st) \<and> colwidth (snd st) \<noteq> None"
proof -
  let ?p = "fst st - s"
  from i obtain n j where n: "nodeAt t ?p = Some n" and col: "inColumn (tableMap t) k ?p"
    and j: "spanIndex (tableMap t) k ?p (attrs n) = Some j"
    and a: "withWidth (attrs n) j w = Inr (snd st)"
    by (auto simp: issued_def split: option.splits)
  from col obtain row where "row < height (tableMap t)"
    and "js_at (map_arr (tableMap t)) (int row * int (width (tableMap t)) + k) = Some ?p"
    by (rule inColumn_slot)
  then have "0 \<le> j \<and> j < colspan (attrs n)" using c n j
    by (intro coversColumn_index [of t k row ?p n j]) simp_all
  then have "colwidthOk (snd st)" using a ok [OF n] by (simp add: withWidth_colwidthOk)
  then show ?thesis using withWidth_spans [OF a] by simp
qed

lemma zeroes_length: "zeroes n = Inr z \<Longrightarrow> int (length z) = n"
  by (auto simp: zeroes_def split: if_splits)

section \<open>Lemmas about the attribute readers\<close>

lemma split_comma_nonempty: "split_comma s \<noteq> []"
  by (induction s) (auto split: list.splits)

lemma digitList_split:
  "digitList seen s =
     (list_all is_digit (hd (split_comma s)) \<and> (seen \<or> hd (split_comma s) \<noteq> [])
      \<and> list_all (\<lambda>p. p \<noteq> [] \<and> list_all is_digit p) (tl (split_comma s)))"
proof (induction s arbitrary: seen)
  case Nil
  show ?case by simp
next
  case (Cons c cs)
  obtain p ps where sc: "split_comma cs = p # ps"
    using split_comma_nonempty [of cs] by (cases "split_comma cs") auto
  show ?case
  proof (cases "c = CHR '',''")
    case True
    then have nd: "\<not> is_digit c" by (simp add: is_digit_def)
    show ?thesis using True nd sc Cons.IH [of False] by auto
  next
    case False
    show ?thesis using False sc Cons.IH [of True] by auto
  qed
qed

lemma regexTest_pieces:
  "regexTest s = list_all (\<lambda>p. p \<noteq> [] \<and> list_all is_digit p) (split_comma s)"
proof -
  obtain p ps where sc: "split_comma s = p # ps"
    using split_comma_nonempty [of s] by (cases "split_comma s") auto
  show ?thesis using sc by (auto simp: regexTest_def digitList_split)
qed

lemma extraStep_other:
  "name \<noteq> fst prop \<Longrightarrow> extraStep el result prop name = result name"
  by (simp add: extraStep_def Let_def split: option.splits)

lemma foldl_extraStep_other:
  "name \<notin> fst ` set extraAttrs \<Longrightarrow> foldl (extraStep el) result extraAttrs name = result name"
proof (induction extraAttrs arbitrary: result)
  case Nil
  show ?case by simp
next
  case (Cons x xs)
  have "foldl (extraStep el) (extraStep el result x) xs name = extraStep el result x name"
    using Cons.prems by (intro Cons.IH) simp
  then show ?case using Cons.prems by (simp add: extraStep_other)
qed

lemma getRowAttrs_rowheight:
  assumes "''rowheight'' \<notin> fst ` set extraAttrs"
  shows "getRowAttrs (HTMLElement el) extraAttrs ''rowheight'' =
           Some (case getAttribute el ''data-rowheight'' of
                   None \<Rightarrow> Null
                 | Some s \<Rightarrow> if s \<noteq> [] \<and> regexTest s then Str s else Null)"
  using assms by (simp add: getRowAttrs_def foldl_extraStep_other Let_def)

lemma getCellAttrs_fields:
  assumes "''colwidth'' \<notin> fst ` set extraAttrs" and "''colspan'' \<notin> fst ` set extraAttrs"
  shows "getCellAttrs other (HTMLElement el) extraAttrs ''colspan''
           = Some (Num (spanAttr other el ''colspan''))"
    and "getCellAttrs other (HTMLElement el) extraAttrs ''colwidth'' =
           Some (case (case getAttribute el ''data-colwidth'' of
                    None \<Rightarrow> None
                  | Some widthAttr \<Rightarrow>
                      if widthAttr \<noteq> [] \<and> regexTest widthAttr
                      then Some (map (Number other) (split_comma widthAttr))
                      else None) of
                       None \<Rightarrow> Null
                     | Some ws \<Rightarrow>
                         if Finite (real (length ws)) = spanAttr other el ''colspan''
                         then NumArr ws else Null)"
  using assms by (simp_all add: getCellAttrs_def foldl_extraStep_other Let_def)

lemma getCellAttrs_invariant:
  assumes "''colwidth'' \<notin> fst ` set extraAttrs" and "''colspan'' \<notin> fst ` set extraAttrs"
  shows "case getCellAttrs other dm extraAttrs ''colwidth'' of
           Some (NumArr ws) \<Rightarrow>
             getCellAttrs other dm extraAttrs ''colspan'' = Some (Num (Finite (real (length ws))))
         | Some Null \<Rightarrow> True
         | None \<Rightarrow> (\<exists>s. dm = DomString s)
         | _ \<Rightarrow> False"
proof (cases dm)
  case (DomString s)
  then show ?thesis by (simp add: getCellAttrs_def)
next
  case (HTMLElement el)
  show ?thesis
    unfolding HTMLElement getCellAttrs_fields [OF assms]
    by (simp split: option.splits)
qed

lemma dispatch_colwidthOk:
  assumes u: "updateColumnWidth d cell w = Inr tr" and t: "table d = Some t"
    and k: "lastColumn d cell = Inr k" and c: "coversColumn t k"
    and ok: "\<forall>p nd. nodeAt t p = Some nd \<longrightarrow> colwidthOk (attrs nd)"
  shows "(\<forall>steps st. tr = Some steps \<and> st \<in> set steps
            \<longrightarrow> colwidthOk (snd st) \<and> colwidth (snd st) \<noteq> None)
       \<and> (\<exists>t'. table (dispatch d tr) = Some t'
             \<and> (\<forall>p nd. nodeAt t' p = Some nd \<longrightarrow> colwidthOk (attrs nd)))"
proof -
  let ?s = "tableStart d"
  from u t k obtain t' steps where t': "table (dispatch d tr) = Some t'"
    and tr: "tr = (if steps \<noteq> [] then Some steps else None)"
    and i: "\<forall>st \<in> set steps. issued t ?s k w st"
    and n': "\<And>p. nodeAt t' p =
          (if ?s + p \<in> fst ` set steps then resizedAt t k w p else nodeAt t p)"
    by (rule dispatch_nodeAt) blast
  have ok': "\<And>p n. nodeAt t p = Some n \<Longrightarrow> colwidthOk (attrs n)" using ok by blast
  have st: "colwidthOk (snd st) \<and> colwidth (snd st) \<noteq> None" if "st \<in> set steps" for st
  proof -
    have "issued t ?s k w st" using i that by simp
    then show ?thesis using c ok' by (rule issued_colwidthOk)
  qed
  have a: "\<forall>steps' st. tr = Some steps' \<and> st \<in> set steps'
            \<longrightarrow> colwidthOk (snd st) \<and> colwidth (snd st) \<noteq> None"
    using tr st by (auto split: if_splits)
  have b: "colwidthOk (attrs nd)" if nd: "nodeAt t' p = Some nd" for p nd
  proof (cases "?s + p \<in> fst ` set steps")
    case False
    then show ?thesis using n' [of p] nd ok' by simp
  next
    case True
    then obtain x where x: "x \<in> set steps" and f: "fst x = ?s + p" by auto
    have "issued t ?s k w x" using i x by simp
    then obtain n where "resizedAt t k w (fst x - ?s) = Some (n\<lparr>attrs := snd x\<rparr>)"
      by (rule issued_resizedAt)
    then have "nd = n\<lparr>attrs := snd x\<rparr>" using True n' [of p] nd f by simp
    then show ?thesis using st [OF x] by simp
  qed
  show ?thesis using a b t' by blast
qed

section \<open>Lemmas about the decorations\<close>

lemma colTest_spec: "colTest m b row = specColMarker m b row"
proof -
  let ?W = "int (width m)"
  have a: "js_at (map_arr m) (b + int row * ?W - 1) = slot m (int row) (b - 1)"
    by (simp add: slot_def algebra_simps)
  have c: "js_at (map_arr m) (b + int row * ?W - 1 + 1) = slot m (int row) b"
    by (simp add: slot_def algebra_simps)
  have d: "js_at (map_arr m) (b + int row * ?W - 1 - ?W) = slot m (int row - 1) (b - 1)"
    by (simp add: slot_def algebra_simps)
  show ?thesis
    unfolding colTest_def specColMarker_def Let_def a c d by auto
qed

lemma rowTest_spec: "rowTest m b col = specRowMarker m b col"
proof -
  let ?W = "int (width m)"
  have a: "js_at (map_arr m) ((b - 1) * ?W + int col) = slot m (b - 1) (int col)"
    by (simp add: slot_def)
  have c: "js_at (map_arr m) ((b - 1) * ?W + int col + ?W) = slot m b (int col)"
    by (simp add: slot_def algebra_simps)
  have d: "js_at (map_arr m) ((b - 1) * ?W + int col - 1) = slot m (b - 1) (int col - 1)"
    by (simp add: slot_def algebra_simps)
  show ?thesis
    unfolding rowTest_def specRowMarker_def Let_def a c d by auto
qed

lemma widgetAt_markerOf:
  "widgetAt t s ix cls = Inr dc \<Longrightarrow> markerOf t s cls (js_at (map_arr (tableMap t)) ix) dc"
  by (auto simp: widgetAt_def markerOf_def split: option.splits)

lemma colLoop_markers:
  assumes "colLoop t s b rows acc = Inr ds"
  shows "\<exists>new. ds = acc @ new
           \<and> list_all2 (\<lambda>dc row. markerOf t s ''column-resize-handle''
                                   (slot (tableMap t) (int row) (b - 1)) dc)
                new (filter (specColMarker (tableMap t) b) rows)"
  using assms
proof (induction rows arbitrary: acc)
  case Nil
  then show ?case by simp
next
  case (Cons row rows)
  have ix: "b + int row * int (width (tableMap t)) - 1
              = int row * int (width (tableMap t)) + (b - 1)" by simp
  show ?case
  proof (cases "specColMarker (tableMap t) b row")
    case False
    then have "colLoop t s b rows acc = Inr ds"
      using Cons.prems by (simp add: colTest_spec)
    from Cons.IH [OF this] show ?thesis using False by simp
  next
    case True
    then obtain dc where w: "widgetAt t s (b + int row * int (width (tableMap t)) - 1)
                               ''column-resize-handle'' = Inr dc"
      and l: "colLoop t s b rows (acc @ [dc]) = Inr ds"
      using Cons.prems by (auto simp: colTest_spec split: sum.splits)
    have mk: "markerOf t s ''column-resize-handle'' (slot (tableMap t) (int row) (b - 1)) dc"
      using widgetAt_markerOf [OF w] unfolding ix slot_def .
    from Cons.IH [OF l] obtain new where "ds = (acc @ [dc]) @ new"
      and "list_all2 (\<lambda>dc row. markerOf t s ''column-resize-handle''
                                   (slot (tableMap t) (int row) (b - 1)) dc)
                new (filter (specColMarker (tableMap t) b) rows)"
      by blast
    then have "ds = acc @ (dc # new)
       \<and> list_all2 (\<lambda>dc row. markerOf t s ''column-resize-handle''
                                   (slot (tableMap t) (int row) (b - 1)) dc)
                (dc # new) (filter (specColMarker (tableMap t) b) (row # rows))"
      using True mk by simp
    then show ?thesis by blast
  qed
qed

lemma rowLoop_markers:
  assumes "rowLoop t s b cols acc = Inr ds"
  shows "\<exists>new. ds = acc @ new
           \<and> list_all2 (\<lambda>dc col. markerOf t s ''row-resize-handle''
                                   (slot (tableMap t) (b - 1) (int col)) dc)
                new (filter (specRowMarker (tableMap t) b) cols)"
  using assms
proof (induction cols arbitrary: acc)
  case Nil
  then show ?case by simp
next
  case (Cons col cols)
  show ?case
  proof (cases "specRowMarker (tableMap t) b col")
    case False
    then have "rowLoop t s b cols acc = Inr ds"
      using Cons.prems by (simp add: rowTest_spec)
    from Cons.IH [OF this] show ?thesis using False by simp
  next
    case True
    then obtain dc where w: "widgetAt t s ((b - 1) * int (width (tableMap t)) + int col)
                               ''row-resize-handle'' = Inr dc"
      and l: "rowLoop t s b cols (acc @ [dc]) = Inr ds"
      using Cons.prems by (auto simp: rowTest_spec split: sum.splits)
    have mk: "markerOf t s ''row-resize-handle'' (slot (tableMap t) (b - 1) (int col)) dc"
      using widgetAt_markerOf [OF w] unfolding slot_def .
    from Cons.IH [OF l] obtain new where "ds = (acc @ [dc]) @ new"
      and "list_all2 (\<lambda>dc col. markerOf t s ''row-resize-handle''
                                   (slot (tableMap t) (b - 1) (int col)) dc)
                new (filter (specRowMarker (tableMap t) b) cols)"
      by blast
    then have "ds = acc @ (dc # new)
       \<and> list_all2 (\<lambda>dc col. markerOf t s ''row-resize-handle''
                                   (slot (tableMap t) (b - 1) (int col)) dc)
                (dc # new) (filter (specRowMarker (tableMap t) b) (col # cols))"
      using True mk by simp
    then show ?thesis by blast
  qed
qed

lemma handleDecorations_col:
  assumes "handleDecorations d cell PosCol = Inr (Some ds)" and "table d = Some t"
  shows "\<exists>c n. colCount (tableMap t) (cell - tableStart d) = Some c \<and> nodeAfter d cell = Some n
           \<and> list_all2 (\<lambda>dc row. markerOf t (tableStart d) ''column-resize-handle''
                          (slot (tableMap t) (int row) (c + colspan (attrs n) - 1)) dc)
               ds (filter (specColMarker (tableMap t) (c + colspan (attrs n)))
                     [0..<height (tableMap t)])"
proof -
  from assms obtain c n where c: "colCount (tableMap t) (cell - tableStart d) = Some c"
    and n: "nodeAfter d cell = Some n"
    and l: "colLoop t (tableStart d) (c + colspan (attrs n)) [0..<height (tableMap t)] []
              = Inr ds"
    by (auto simp: handleDecorations_def map_sum_def split: option.splits sum.splits)
  from colLoop_markers [OF l] show ?thesis using c n by simp
qed

lemma handleDecorations_row:
  assumes "handleDecorations d cell PosRow = Inr (Some ds)" and "table d = Some t"
  shows "\<exists>r n. rowCount (tableMap t) (cell - tableStart d) = Some r \<and> nodeAfter d cell = Some n
           \<and> list_all2 (\<lambda>dc col. markerOf t (tableStart d) ''row-resize-handle''
                          (slot (tableMap t) (r + rowspan (attrs n) - 1) (int col)) dc)
               ds (filter (specRowMarker (tableMap t) (r + rowspan (attrs n)))
                     [0..<width (tableMap t)])"
proof -
  from assms obtain r n where r: "rowCount (tableMap t) (cell - tableStart d) = Some r"
    and n: "nodeAfter d cell = Some n"
    and l: "rowLoop t (tableStart d) (r + rowspan (attrs n)) [0..<width (tableMap t)] []
              = Inr ds"
    by (auto simp: handleDecorations_def map_sum_def split: option.splits sum.splits)
  from rowLoop_markers [OF l] show ?thesis using r n by simp
qed

lemma list_all2_count:
  assumes "list_all2 R xs ys" and "\<And>x y. y \<in> set ys \<Longrightarrow> R x y \<Longrightarrow> P x = Q y"
  shows "length (filter P xs) = length (filter Q ys)"
  using assms
proof (induction rule: list_all2_induct)
  case Nil
  show ?case by simp
next
  case (Cons x xs y ys)
  have "P x = Q y" using Cons.prems [of y x] Cons.hyps(1) by simp
  moreover have "length (filter P xs) = length (filter Q ys)"
    using Cons.IH Cons.prems by simp
  ultimately show ?case by simp
qed

lemma count_single:
  assumes "r0 < h" and "\<And>r. r < h \<Longrightarrow> P r = (r = r0)"
  shows "length (filter P [0..<h]) = 1"
proof -
  have "filter P [0..<h] = filter (\<lambda>r. r = r0) [0..<h]"
    using assms(2) by (intro filter_cong) simp_all
  also have "length \<dots> = card ({r. r = r0} \<inter> set [0..<h])"
    by (simp add: distinct_length_filter)
  also have "{r. r = r0} \<inter> set [0..<h] = {r0}" using assms(1) by auto
  finally show ?thesis by simp
qed

lemma blockAt_slot:
  assumes "blockAt m a r0 c0" and "r < height m" and "c < width m"
  shows "(slot m (int r) (int c) = Some a) = ((r = r0 \<or> r = r0 + 1) \<and> (c = c0 \<or> c = c0 + 1))"
  using assms by (simp add: blockAt_def list_all_iff)

lemma slot_in_map: "slot m r c = Some p \<Longrightarrow> p \<in> set (map_arr m)"
  by (auto simp: slot_def js_at_def split: if_splits)

lemma markerOf_owner:
  assumes e: "endsDistinct t a" and na: "nodeAt t a = Some na"
    and mk: "markerOf t s cls (slot (tableMap t) r c) dc"
  shows "(pos dc = s + a + nodeSize na - 1) = (slot (tableMap t) r c = Some a)"
proof -
  from mk obtain p n where p: "slot (tableMap t) r c = Some p" and n: "nodeAt t p = Some n"
    and dc: "dc = \<lparr>pos = s + p + nodeSize n - 1, className = cls\<rparr>"
    by (auto simp: markerOf_def split: option.splits)
  show ?thesis
  proof (cases "p = a")
    case True
    then show ?thesis using p n na dc by simp
  next
    case False
    have "p \<in> set (map_arr (tableMap t))" using p by (rule slot_in_map)
    then have "p + nodeSize n \<noteq> a + nodeSize na"
      using e False n na by (auto simp: endsDistinct_def list_all_iff)
    then show ?thesis using False p dc by simp
  qed
qed

lemma block_col_rows:
  assumes blk: "blockAt m a r0 c0" and r: "r < height m"
  shows "(specColMarker m (int (c0 + 2)) r \<and> slot m (int r) (int (c0 + 1)) = Some a) = (r = r0)"
proof -
  have h: "r0 + 2 \<le> height m" and w: "c0 + 2 \<le> width m"
    using blk by (simp_all add: blockAt_def)
  have S: "(slot m (int r') (int c') = Some a) = ((r' = r0 \<or> r' = r0 + 1) \<and> (c' = c0 \<or> c' = c0 + 1))"
    if "r' < height m" and "c' < width m" for r' c'
    using blk that by (rule blockAt_slot)
  have cur: "(slot m (int r') (int (c0 + 1)) = Some a) = (r' = r0 \<or> r' = r0 + 1)"
    if "r' < height m" for r'
    using S [OF that, of "c0 + 1"] w by simp
  have right: "slot m (int r') (int (c0 + 2)) \<noteq> Some a"
    if "r' < height m" and "c0 + 2 \<noteq> width m" for r'
    using S [OF that(1), of "c0 + 2"] w that(2) by simp
  have c3: "int (c0 + 2) - 1 = int (c0 + 1)" by simp
  have spec: "specColMarker m (int (c0 + 2)) r' =
      ((slot m (int r') (int (c0 + 2)) \<noteq> slot m (int r') (int (c0 + 1)) \<or> c0 + 2 = width m) \<and>
       (slot m (int r' - 1) (int (c0 + 1)) \<noteq> slot m (int r') (int (c0 + 1)) \<or> r' = 0))" for r'
    unfolding specColMarker_def c3 of_nat_eq_iff ..
  have r0h: "r0 < height m" and r1h: "r0 + 1 < height m" using h by simp_all
  have here: "slot m (int r0) (int (c0 + 1)) = Some a" unfolding cur [OF r0h] by simp
  have below: "slot m (int (r0 + 1)) (int (c0 + 1)) = Some a" unfolding cur [OF r1h] by simp
  show ?thesis
  proof (cases "r = r0")
    case True
    have first: "slot m (int r0) (int (c0 + 2)) \<noteq> Some a \<or> c0 + 2 = width m"
      using right [OF r0h] by blast
    have second: "slot m (int r0 - 1) (int (c0 + 1)) \<noteq> Some a \<or> r0 = 0"
    proof (cases "r0 = 0")
      case True
      then show ?thesis by (rule disjI2)
    next
      case False
      then have i: "int r0 - 1 = int (r0 - 1)" by simp
      have lt: "r0 - 1 < height m" using h by arith
      have ne: "\<not> (r0 - 1 = r0 \<or> r0 - 1 = r0 + 1)" using False by arith
      have "slot m (int r0 - 1) (int (c0 + 1)) \<noteq> Some a"
        unfolding i cur [OF lt] by (rule ne)
      then show ?thesis by (rule disjI1)
    qed
    have "specColMarker m (int (c0 + 2)) r0"
      unfolding spec here using first second by (rule conjI)
    then show ?thesis using True here by blast
  next
    case False
    show ?thesis
    proof (cases "r = r0 + 1")
      case True
      have j: "int (r0 + 1) - 1 = int r0" by simp
      have nz: "r0 + 1 \<noteq> 0" by simp
      have "\<not> specColMarker m (int (c0 + 2)) (r0 + 1)"
        unfolding spec j here below using nz by blast
      then show ?thesis using True False by blast
    next
      case n1: False
      have "slot m (int r) (int (c0 + 1)) \<noteq> Some a"
        unfolding cur [OF r] using False n1 by blast
      then show ?thesis using False by blast
    qed
  qed
qed

lemma block_row_cols:
  assumes blk: "blockAt m a r0 c0" and c: "c < width m"
  shows "(specRowMarker m (int (r0 + 2)) c \<and> slot m (int (r0 + 1)) (int c) = Some a) = (c = c0)"
proof -
  have h: "r0 + 2 \<le> height m" and w: "c0 + 2 \<le> width m"
    using blk by (simp_all add: blockAt_def)
  have S: "(slot m (int r') (int c') = Some a) = ((r' = r0 \<or> r' = r0 + 1) \<and> (c' = c0 \<or> c' = c0 + 1))"
    if "r' < height m" and "c' < width m" for r' c'
    using blk that by (rule blockAt_slot)
  have cur: "(slot m (int (r0 + 1)) (int c') = Some a) = (c' = c0 \<or> c' = c0 + 1)"
    if "c' < width m" for c'
    using S [OF _ that, of "r0 + 1"] h by simp
  have under: "slot m (int (r0 + 2)) (int c') \<noteq> Some a"
    if "c' < width m" and "r0 + 2 \<noteq> height m" for c'
    using S [OF _ that(1), of "r0 + 2"] h that(2) by simp
  have c3: "int (r0 + 2) - 1 = int (r0 + 1)" by simp
  have spec: "specRowMarker m (int (r0 + 2)) c' =
      ((slot m (int (r0 + 2)) (int c') \<noteq> slot m (int (r0 + 1)) (int c') \<or> r0 + 2 = height m) \<and>
       (slot m (int (r0 + 1)) (int c' - 1) \<noteq> slot m (int (r0 + 1)) (int c') \<or> c' = 0))" for c'
    unfolding specRowMarker_def c3 of_nat_eq_iff ..
  have c0w: "c0 < width m" and c1w: "c0 + 1 < width m" using w by simp_all
  have here: "slot m (int (r0 + 1)) (int c0) = Some a" unfolding cur [OF c0w] by simp
  have next_col: "slot m (int (r0 + 1)) (int (c0 + 1)) = Some a" unfolding cur [OF c1w] by simp
  show ?thesis
  proof (cases "c = c0")
    case True
    have first: "slot m (int (r0 + 2)) (int c0) \<noteq> Some a \<or> r0 + 2 = height m"
      using under [OF c0w] by blast
    have second: "slot m (int (r0 + 1)) (int c0 - 1) \<noteq> Some a \<or> c0 = 0"
    proof (cases "c0 = 0")
      case True
      then show ?thesis by (rule disjI2)
    next
      case False
      then have i: "int c0 - 1 = int (c0 - 1)" by simp
      have lt: "c0 - 1 < width m" using w by arith
      have ne: "\<not> (c0 - 1 = c0 \<or> c0 - 1 = c0 + 1)" using False by arith
      have "slot m (int (r0 + 1)) (int c0 - 1) \<noteq> Some a"
        unfolding i cur [OF lt] by (rule ne)
      then show ?thesis by (rule disjI1)
    qed
    have "specRowMarker m (int (r0 + 2)) c0"
      unfolding spec here using first second by (rule conjI)
    then show ?thesis using True here by blast
  next
    case False
    show ?thesis
    proof (cases "c = c0 + 1")
      case True
      have j: "int (c0 + 1) - 1 = int c0" by simp
      have nz: "c0 + 1 \<noteq> 0" by simp
      have "\<not> specRowMarker m (int (r0 + 2)) (c0 + 1)"
        unfolding spec j here next_col using nz by blast
      then show ?thesis using True False by blast
    next
      case n1: False
      have "slot m (int (r0 + 1)) (int c) \<noteq> Some a"
        unfolding cur [OF c] using False n1 by blast
      then show ?thesis using False by blast
    qed
  qed
qed

lemma block_col_count:
  assumes hd: "handleDecorations d (tableStart d + a) PosCol = Inr (Some ds)"
    and t: "table d = Some t" and blk: "blockAt (tableMap t) a r0 c0"
    and cc: "colCount (tableMap t) a = Some (int c0)" and na: "nodeAt t a = Some na"
    and cs: "colspan (attrs na) = 2" and e: "endsDistinct t a"
  shows "length (filter (\<lambda>dc. pos dc = tableStart d + a + nodeSize na - 1) ds) = 1"
proof -
  let ?m = "tableMap t" and ?s = "tableStart d"
  let ?P = "\<lambda>dc. pos dc = ?s + a + nodeSize na - 1"
  let ?Q = "\<lambda>row. slot ?m (int row) (int (c0 + 1)) = Some a"
  from handleDecorations_col [OF hd t] obtain c n where
    c: "colCount ?m (?s + a - ?s) = Some c" and n: "nodeAfter d (?s + a) = Some n"
    and l: "list_all2 (\<lambda>dc row. markerOf t ?s ''column-resize-handle''
                          (slot ?m (int row) (c + colspan (attrs n) - 1)) dc)
               ds (filter (specColMarker ?m (c + colspan (attrs n))) [0..<height ?m])"
    by blast
  have "c = int c0" using c cc by simp
  moreover have "n = na" using n na t by (simp add: nodeAfter_def)
  ultimately have b: "c + colspan (attrs n) = int (c0 + 2)"
    and b1: "c + colspan (attrs n) - 1 = int (c0 + 1)" using cs by simp_all
  note l1 = l [unfolded b1]
  note l' = l1 [unfolded b]
  have "length (filter ?P ds)
          = length (filter ?Q (filter (specColMarker ?m (int (c0 + 2))) [0..<height ?m]))"
    using l' by (rule list_all2_count) (rule markerOf_owner [OF e na])
  also have "\<dots> = length (filter (\<lambda>r. specColMarker ?m (int (c0 + 2)) r \<and> ?Q r)
                          [0..<height ?m])"
    by (simp only: filter_filter)
  also have "\<dots> = 1"
  proof (rule count_single)
    show "r0 < height ?m" using blk by (simp add: blockAt_def)
  next
    fix r assume "r < height ?m"
    with blk show "(specColMarker ?m (int (c0 + 2)) r \<and> ?Q r) = (r = r0)"
      by (rule block_col_rows)
  qed
  finally show ?thesis .
qed

lemma block_row_count:
  assumes hd: "handleDecorations d (tableStart d + a) PosRow = Inr (Some ds)"
    and t: "table d = Some t" and blk: "blockAt (tableMap t) a r0 c0"
    and rc: "rowCount (tableMap t) a = Some (int r0)" and na: "nodeAt t a = Some na"
    and rs: "rowspan (attrs na) = 2" and e: "endsDistinct t a"
  shows "length (filter (\<lambda>dc. pos dc = tableStart d + a + nodeSize na - 1) ds) = 1"
proof -
  let ?m = "tableMap t" and ?s = "tableStart d"
  let ?P = "\<lambda>dc. pos dc = ?s + a + nodeSize na - 1"
  let ?Q = "\<lambda>col. slot ?m (int (r0 + 1)) (int col) = Some a"
  from handleDecorations_row [OF hd t] obtain r n where
    r: "rowCount ?m (?s + a - ?s) = Some r" and n: "nodeAfter d (?s + a) = Some n"
    and l: "list_all2 (\<lambda>dc col. markerOf t ?s ''row-resize-handle''
                          (slot ?m (r + rowspan (attrs n) - 1) (int col)) dc)
               ds (filter (specRowMarker ?m (r + rowspan (attrs n))) [0..<width ?m])"
    by blast
  have "r = int r0" using r rc by simp
  moreover have "n = na" using n na t by (simp add: nodeAfter_def)
  ultimately have b: "r + rowspan (attrs n) = int (r0 + 2)"
    and b1: "r + rowspan (attrs n) - 1 = int (r0 + 1)" using rs by simp_all
  note l1 = l [unfolded b1]
  note l' = l1 [unfolded b]
  have "length (filter ?P ds)
          = length (filter ?Q (filter (specRowMarker ?m (int (r0 + 2))) [0..<width ?m]))"
    using l' by (rule list_all2_count) (rule markerOf_owner [OF e na])
  also have "\<dots> = length (filter (\<lambda>c. specRowMarker ?m (int (r0 + 2)) c \<and> ?Q c)
                          [0..<width ?m])"
    by (simp only: filter_filter)
  also have "\<dots> = 1"
  proof (rule count_single)
    show "c0 < width ?m" using blk by (simp add: blockAt_def)
  next
    fix c assume "c < width ?m"
    with blk show "(specRowMarker ?m (int (r0 + 2)) c \<and> ?Q c) = (c = c0)"
      by (rule block_row_cols)
  qed
  finally show ?thesis .
qed

lemmas block_defs = block_doc_def block_table_def ex_cell_def

section \<open>Properties\<close>

text \<open>
  C2: while dragging, the dimension computed for a pointer at coordinate \<open>c\<close> on the drag's
  axis (\<open>clientX\<close> for the column axis, \<open>clientY\<close> for the row axis) is
  \<open>max m (d + (c - a))\<close> for anchor coordinate \<open>a\<close>, anchor dimension \<open>d\<close> and minimum
  cell size \<open>m\<close>; with \<open>d = 100\<close>, \<open>a = 50\<close>, \<open>m = 25\<close>, \<open>c = 10\<close> it is \<open>60\<close>.
\<close>

theorem draggedDimension_max:
  "draggedDimension PosCol \<lparr>startPosition = a, startDimension = d\<rparr>
       \<lparr>clientX = c, clientY = y\<rparr> m = max m (d + (c - a))
   \<and> draggedDimension PosRow \<lparr>startPosition = a, startDimension = d\<rparr>
       \<lparr>clientX = x, clientY = c\<rparr> m = max m (d + (c - a))
   \<and> draggedDimension PosCol \<lparr>startPosition = 50, startDimension = 100\<rparr>
       \<lparr>clientX = 10, clientY = y\<rparr> 25 = 60
   \<and> draggedDimension PosRow \<lparr>startPosition = 50, startDimension = 100\<rparr>
       \<lparr>clientX = x, clientY = 10\<rparr> 25 = 60"
  by (simp add: draggedDimension_def)

text \<open>
  C1: \<open>updateColumnWidth\<close> with target grid column \<open>k\<close> (the last column of the active
  cell) and width \<open>w\<close> leaves the grid and every node of the table in place, and changes
  nothing in a cell but its width sequence: size, \<open>colspan\<close>, \<open>rowspan\<close> and the other
  attributes stay. A cell that has no slot in column \<open>k\<close> keeps its node as it is. In a
  cell of column \<open>k\<close>, the width stored for every index other than the cell's own index of
  column \<open>k\<close> (0 when \<open>colspan\<close> is 1, else \<open>k\<close> minus the cell's first column) is what it
  was before, a cell without \<open>colwidth\<close> being read as all zero (unset). For a cell that
  spans columns \<open>k - 1\<close> to \<open>k + 1\<close> the entries 0 and 2 are unchanged, and if the cell is
  changed at all, entry 1 is \<open>w\<close>.
\<close>

theorem updateColumnWidth_frame:
  assumes "updateColumnWidth d cell w = Inr tr" and "table d = Some t"
    and "lastColumn d cell = Inr k"
  shows "\<exists>t'. table (dispatch d tr) = Some t' \<and> tableMap t' = tableMap t
     \<and> (\<forall>p. case nodeAt t p of
              None \<Rightarrow> nodeAt t' p = None
            | Some n \<Rightarrow>
                (\<exists>n'. nodeAt t' p = Some n' \<and> nodeSize n' = nodeSize n
                   \<and> colspan (attrs n') = colspan (attrs n)
                   \<and> rowspan (attrs n') = rowspan (attrs n)
                   \<and> extra (attrs n') = extra (attrs n)
                   \<and> (\<not> inColumn (tableMap t) k p \<longrightarrow> n' = n)
                   \<and> (\<forall>i j. spanIndex (tableMap t) k p (attrs n) = Some i \<and> j \<noteq> i
                        \<longrightarrow> storedWidth (attrs n') j = storedWidth (attrs n) j)
                   \<and> (colspan (attrs n) = 3 \<and> colCount (tableMap t) p = Some (k - 1)
                        \<longrightarrow> storedWidth (attrs n') 0 = storedWidth (attrs n) 0
                          \<and> storedWidth (attrs n') 2 = storedWidth (attrs n) 2
                          \<and> (n' \<noteq> n \<longrightarrow> storedWidth (attrs n') 1 = Some w))))"
proof -
  from assms obtain t' where t': "table (dispatch d tr) = Some t'"
    and m: "tableMap t' = tableMap t"
    by (rule dispatch_nodeAt) blast
  have "case nodeAt t p of
          None \<Rightarrow> nodeAt t' p = None
        | Some n \<Rightarrow>
            (\<exists>n'. nodeAt t' p = Some n' \<and> nodeSize n' = nodeSize n
               \<and> colspan (attrs n') = colspan (attrs n)
               \<and> rowspan (attrs n') = rowspan (attrs n)
               \<and> extra (attrs n') = extra (attrs n)
               \<and> (\<not> inColumn (tableMap t) k p \<longrightarrow> n' = n)
               \<and> (\<forall>i j. spanIndex (tableMap t) k p (attrs n) = Some i \<and> j \<noteq> i
                    \<longrightarrow> storedWidth (attrs n') j = storedWidth (attrs n) j)
               \<and> (colspan (attrs n) = 3 \<and> colCount (tableMap t) p = Some (k - 1)
                    \<longrightarrow> storedWidth (attrs n') 0 = storedWidth (attrs n) 0
                      \<and> storedWidth (attrs n') 2 = storedWidth (attrs n) 2
                      \<and> (n' \<noteq> n \<longrightarrow> storedWidth (attrs n') 1 = Some w)))" for p
  proof (cases "nodeAt t p")
    case None
    then show ?thesis using node_after_dispatch [OF assms t', of p] by auto
  next
    case (Some n)
    have three: "spanIndex (tableMap t) k p (attrs n) = Some 1"
      if "colspan (attrs n) = 3" and "colCount (tableMap t) p = Some (k - 1)"
      using that by (simp add: spanIndex_def)
    from node_after_dispatch [OF assms t', of p]
    consider "nodeAt t' p = Some n"
      | n' where "inColumn (tableMap t) k p" and "nodeAt t' p = Some n'"
          and "resizedAt t k w p = Some n'"
      using Some by auto
    then show ?thesis
    proof cases
      case 1
      then show ?thesis using Some by simp
    next
      case 2
      note f = resizedAt_frame [OF Some 2(3)]
      have o: "storedWidth (attrs n') j = storedWidth (attrs n) j"
        if "spanIndex (tableMap t) k p (attrs n) = Some i" and "j \<noteq> i" for i j
        using f that by blast
      have h: "hasWidth (attrs n') i w"
        if "spanIndex (tableMap t) k p (attrs n) = Some i" and "0 \<le> i" for i
        using f that by blast
      have s1: "storedWidth (attrs n') 1 = Some w"
        if "colspan (attrs n) = 3" and "colCount (tableMap t) p = Some (k - 1)"
        using h [OF three [OF that]] by (simp add: hasWidth_def storedWidth_def split: option.splits)
      have s0: "storedWidth (attrs n') 0 = storedWidth (attrs n) 0
                \<and> storedWidth (attrs n') 2 = storedWidth (attrs n) 2"
        if "colspan (attrs n) = 3" and "colCount (tableMap t) p = Some (k - 1)"
        using o [OF three [OF that]] by simp
      show ?thesis using Some 2(1,2) f o s0 s1 by simp
    qed
  qed
  then show ?thesis using t' m by blast
qed

theorem updateColumnWidth_frame_witness:
  "updateColumnWidth span_doc 12 150 = Inr (Some
     [(2, \<lparr>colspan = 3, rowspan = 1, colwidth = Some [Some 10, Some 150, Some 30], extra = []\<rparr>),
      (12, \<lparr>colspan = 1, rowspan = 1, colwidth = Some [Some 150], extra = []\<rparr>)])
   \<and> lastColumn span_doc 12 = Inr 1
   \<and> (\<exists>t'. table (dispatch span_doc (Some
     [(2, \<lparr>colspan = 3, rowspan = 1, colwidth = Some [Some 10, Some 150, Some 30], extra = []\<rparr>),
      (12, \<lparr>colspan = 1, rowspan = 1, colwidth = Some [Some 150], extra = []\<rparr>)])) = Some t'
        \<and> (\<exists>n'. nodeAt t' 1 = Some n' \<and> colspan (attrs n') = 3
              \<and> storedWidth (attrs n') 0 = Some 10 \<and> storedWidth (attrs n') 2 = Some 30)
        \<and> nodeAt t' 7 = Some (ex_cell 1 1 None)
        \<and> nodeAt t' 15 = Some (ex_cell 1 1 None))"
proof -
  let ?tr = "Some
     [(2, \<lparr>colspan = 3, rowspan = 1, colwidth = Some [Some 10, Some 150, Some 30], extra = []\<rparr>),
      (12, \<lparr>colspan = 1, rowspan = 1, colwidth = Some [Some (150::real)], extra = []\<rparr>)]"
  have u: "updateColumnWidth span_doc 12 150 = Inr ?tr" by (rule span_steps)
  have t: "table span_doc = Some span_table" by (simp add: span_doc_def)
  have k: "lastColumn span_doc 12 = Inr 1"
    by (simp add: lastColumn_def colCount_def nodeAfter_def span_defs)
  from updateColumnWidth_frame [OF u t k] obtain t' where
    t': "table (dispatch span_doc ?tr) = Some t'"
    and every: "\<And>p. case nodeAt span_table p of
              None \<Rightarrow> nodeAt t' p = None
            | Some n \<Rightarrow>
                (\<exists>n'. nodeAt t' p = Some n' \<and> nodeSize n' = nodeSize n
                   \<and> colspan (attrs n') = colspan (attrs n)
                   \<and> rowspan (attrs n') = rowspan (attrs n)
                   \<and> extra (attrs n') = extra (attrs n)
                   \<and> (\<not> inColumn (tableMap span_table) 1 p \<longrightarrow> n' = n)
                   \<and> (\<forall>i j. spanIndex (tableMap span_table) 1 p (attrs n) = Some i \<and> j \<noteq> i
                        \<longrightarrow> storedWidth (attrs n') j = storedWidth (attrs n) j)
                   \<and> (colspan (attrs n) = 3 \<and> colCount (tableMap span_table) p = Some (1 - 1)
                        \<longrightarrow> storedWidth (attrs n') 0 = storedWidth (attrs n) 0
                          \<and> storedWidth (attrs n') 2 = storedWidth (attrs n) 2
                          \<and> (n' \<noteq> n \<longrightarrow> storedWidth (attrs n') 1 = Some 150)))"
    by blast
  have c7: "\<not> inColumn (tableMap span_table) 1 7" and c15: "\<not> inColumn (tableMap span_table) 1 15"
    by (simp_all add: inColumn_def span_defs js_at_def upt_rec)
  let ?S = "ex_cell 3 1 (Some [Some 10, Some 20, Some 30])"
  have n1: "nodeAt span_table 1 = Some ?S" by (simp add: span_defs)
  have c3: "colspan (attrs ?S) = 3" by (simp add: ex_cell_def)
  have cc: "colCount (tableMap span_table) 1 = Some (1 - 1)"
    by (simp add: colCount_def span_defs)
  have w0: "storedWidth (attrs ?S) 0 = Some 10" and w2: "storedWidth (attrs ?S) 2 = Some 30"
    by (simp_all add: storedWidth_def arr_get_def ex_cell_def)
  from every [of 1] n1 obtain n' where "nodeAt t' 1 = Some n'"
    and "colspan (attrs n') = colspan (attrs ?S)"
    and "colspan (attrs ?S) = 3 \<and> colCount (tableMap span_table) 1 = Some (1 - 1)
           \<longrightarrow> storedWidth (attrs n') 0 = storedWidth (attrs ?S) 0
             \<and> storedWidth (attrs n') 2 = storedWidth (attrs ?S) 2
             \<and> (n' \<noteq> ?S \<longrightarrow> storedWidth (attrs n') 1 = Some 150)"
    by auto
  then have s: "\<exists>n'. nodeAt t' 1 = Some n' \<and> colspan (attrs n') = 3
              \<and> storedWidth (attrs n') 0 = Some 10 \<and> storedWidth (attrs n') 2 = Some 30"
    using c3 cc w0 w2 by simp
  have a: "nodeAt t' 7 = Some (ex_cell 1 1 None)"
    using every [of 7] c7 by (auto simp: span_defs)
  have b: "nodeAt t' 15 = Some (ex_cell 1 1 None)"
    using every [of 15] c15 by (auto simp: span_defs)
  show ?thesis using u k t' s a b by blast
qed

text \<open>
  C4: \<open>updateColumnWidth\<close> issues nothing where nothing differs. The transaction it
  dispatches is never empty; a cell whose width sequence holds the target width at the
  cell's index of the target column gets no step; when every cell of the column holds the
  width, nothing is dispatched; and after the transaction of a first call has been applied,
  a second call with the same cell and width dispatches nothing (for a grid in which every
  cell of the column spans the column).
\<close>

theorem updateColumnWidth_noop:
  assumes "updateColumnWidth d cell w = Inr tr" and "table d = Some t"
    and "lastColumn d cell = Inr k"
  shows "tr \<noteq> Some []
     \<and> (\<forall>p n i steps. nodeAt t p = Some n \<and> spanIndex (tableMap t) k p (attrs n) = Some i
            \<and> hasWidth (attrs n) i w \<and> tr = Some steps
          \<longrightarrow> tableStart d + p \<notin> fst ` set steps)
     \<and> ((\<forall>p n i. inColumn (tableMap t) k p \<and> nodeAt t p = Some n
              \<and> spanIndex (tableMap t) k p (attrs n) = Some i
            \<longrightarrow> hasWidth (attrs n) i w)
          \<longrightarrow> tr = None)
     \<and> (coversColumn t k \<longrightarrow> updateColumnWidth (dispatch d tr) cell w = Inr None)"
proof -
  let ?s = "tableStart d"
  from assms obtain steps where tr: "tr = (if steps \<noteq> [] then Some steps else None)"
    and i: "\<forall>st \<in> set steps. issued t ?s k w st"
    by (rule updateColumnWidth_steps) blast
  have a: "tr \<noteq> Some []" using tr by simp
  have b: "?s + p \<notin> fst ` set steps'"
    if "nodeAt t p = Some n" and "spanIndex (tableMap t) k p (attrs n) = Some i"
      and "hasWidth (attrs n) i w" and "tr = Some steps'" for p n i steps'
  proof
    assume "?s + p \<in> fst ` set steps'"
    moreover have "steps' = steps" using that(4) tr by (simp split: if_splits)
    ultimately obtain st where "st \<in> set steps" and "fst st = ?s + p" by auto
    then have "issued t ?s k w st" and "fst st - ?s = p" using i by simp_all
    then show False using that(1,2,3) by (simp add: issued_def)
  qed
  have c: "tr = None"
    if h: "\<forall>p n i. inColumn (tableMap t) k p \<and> nodeAt t p = Some n
              \<and> spanIndex (tableMap t) k p (attrs n) = Some i
            \<longrightarrow> hasWidth (attrs n) i w"
  proof -
    have "steps = []"
    proof (cases steps)
      case Nil
      then show ?thesis .
    next
      case (Cons st rest)
      then have "issued t ?s k w st" using i by simp
      then obtain n j where "nodeAt t (fst st - ?s) = Some n"
        and "inColumn (tableMap t) k (fst st - ?s)"
        and "spanIndex (tableMap t) k (fst st - ?s) (attrs n) = Some j"
        and "\<not> hasWidth (attrs n) j w"
        by (auto simp: issued_def split: option.splits)
      then show ?thesis using h by blast
    qed
    then show ?thesis using tr by simp
  qed
  have e: "updateColumnWidth (dispatch d tr) cell w = Inr None" if "coversColumn t k"
    using assms that by (rule second_run)
  show ?thesis using a b c e by blast
qed


theorem updateColumnWidth_noop_witness:
  "updateColumnWidth span_doc 12 20 = Inr (Some
     [(12, \<lparr>colspan = 1, rowspan = 1, colwidth = Some [Some 20], extra = []\<rparr>)])
   \<and> hasWidth (attrs (ex_cell 3 1 (Some [Some 10, Some 20, Some 30]))) 1 20
   \<and> tableStart span_doc + 1 \<notin> fst ` set
     [(12, \<lparr>colspan = 1, rowspan = 1, colwidth = Some [Some (20::real)], extra = []\<rparr>)]
   \<and> coversColumn span_table 1
   \<and> updateColumnWidth (dispatch span_doc (Some
     [(12, \<lparr>colspan = 1, rowspan = 1, colwidth = Some [Some 20], extra = []\<rparr>)])) 12 20
       = Inr None"
proof -
  let ?tr = "Some
     [(12, \<lparr>colspan = 1, rowspan = 1, colwidth = Some [Some (20::real)], extra = []\<rparr>)]"
  have u: "updateColumnWidth span_doc 12 20 = Inr ?tr"
    by (simp add: updateColumnWidth_def updateColumnWidth_row_def lastColumn_def colCount_def
      nodeAfter_def span_defs js_at_def arr_get_def js_set_def spanIndex_def hasWidth_def
      withWidth_def zeroes_def upt_rec)
  have t: "table span_doc = Some span_table" by (simp add: span_doc_def)
  have k: "lastColumn span_doc 12 = Inr 1"
    by (simp add: lastColumn_def colCount_def nodeAfter_def span_defs)
  have c: "coversColumn span_table 1"
    by (simp add: coversColumn_def colCount_def span_defs js_at_def upt_rec)
  have n: "nodeAt span_table 1 = Some (ex_cell 3 1 (Some [Some 10, Some 20, Some 30]))"
    by (simp add: span_defs)
  have i: "spanIndex (tableMap span_table) 1 1
             (attrs (ex_cell 3 1 (Some [Some 10, Some 20, Some 30]))) = Some 1"
    by (simp add: spanIndex_def colCount_def span_defs)
  have h: "hasWidth (attrs (ex_cell 3 1 (Some [Some 10, Some 20, Some 30]))) 1 20"
    by (simp add: hasWidth_def arr_get_def ex_cell_def)
  note inst = updateColumnWidth_noop [OF u t k]
  have "tableStart span_doc + 1 \<notin> fst ` set
     [(12, \<lparr>colspan = 1, rowspan = 1, colwidth = Some [Some (20::real)], extra = []\<rparr>)]"
    using inst n i h by blast
  moreover have "updateColumnWidth (dispatch span_doc ?tr) 12 20 = Inr None"
    using inst c by blast
  ultimately show ?thesis using u h c by blast
qed

text \<open>
  C3: for a state with an active handle \<open>P \<ge> 0\<close> and a transaction that changes the
  document and carries no meta action of the plugin: when the mapping sends \<open>P\<close> to
  \<open>P + N\<close> and that position points at a cell, the new active handle is \<open>P + N\<close>; when
  the mapped position does not point at a cell, the new active handle is \<open>-1\<close>.
\<close>

theorem apply_remaps_handle:
  assumes "meta tr = None" and "docChanged tr" and "0 \<le> activeHandle s"
  shows "(mapping_map tr (activeHandle s) (-1) = activeHandle s + N \<and>
            doc_pointsAtCell tr (activeHandle s + N)
          \<longrightarrow> activeHandle (ResizeState_apply s tr) = activeHandle s + N)
       \<and> (\<not> doc_pointsAtCell tr (mapping_map tr (activeHandle s) (-1))
          \<longrightarrow> activeHandle (ResizeState_apply s tr) = -1)"
  using assms by (simp add: ResizeState_apply_def remap_handle_def Let_def)

theorem apply_remaps_handle_witness:
  "activeHandle (ResizeState_apply ex_state ex_shift) = 5 + 3
   \<and> activeHandle (ResizeState_apply ex_state ex_delete) = -1"
  using apply_remaps_handle [of ex_shift ex_state 3] apply_remaps_handle [of ex_delete ex_state 0]
  by (simp add: ex_state_def ex_shift_def ex_delete_def)

text \<open>
  C10: for a transaction that changes the document and carries no meta action of the
  plugin, applied to a state whose active handle is greater than \<open>-1\<close>: \<open>dragging\<close> is
  carried over, the active handle is the mapped position (or \<open>-1\<close> when that does not
  point at a cell), and \<open>position\<close> is undefined in the new state, also when the mapped
  handle still points at a cell.
\<close>

theorem apply_drops_axis:
  assumes "meta tr = None" and "docChanged tr" and "activeHandle s > -1"
  shows "dragging (ResizeState_apply s tr) = dragging s
       \<and> position (ResizeState_apply s tr) = PosUndefined
       \<and> activeHandle (ResizeState_apply s tr) =
           (if doc_pointsAtCell tr (mapping_map tr (activeHandle s) (-1))
            then mapping_map tr (activeHandle s) (-1) else -1)"
  using assms by (simp add: ResizeState_apply_def remap_handle_def Let_def)

theorem apply_drops_axis_witness:
  "position ex_state = PosCol
   \<and> activeHandle (ResizeState_apply ex_state ex_shift) = 8
   \<and> dragging (ResizeState_apply ex_state ex_shift) = DragFalse
   \<and> position (ResizeState_apply ex_state ex_shift) = PosUndefined"
  using apply_drops_axis [of ex_shift ex_state]
  by (simp add: ex_state_def ex_shift_def)

text \<open>
  C7: on a mouse move while no drag is in progress, over a cell with bounding rectangle
  \<open>rect\<close>, the edges are tested in the order left, right, top, bottom: the column axis
  with the left edge when \<open>x - left \<le> minSize\<close>, else the column axis with the right edge
  when \<open>right - x \<le> minSize\<close>, else the row axis with the top edge when
  \<open>top - y \<ge> -minSize\<close>, else the row axis with the bottom edge when
  \<open>y - bottom \<ge> -minSize\<close>, else no edge. The handle that is dispatched is the result of
  \<open>edgeCell\<close> for that side, with that axis.
\<close>

theorem mouse_move_edge_tests:
  assumes "\<not> is_dragging (dragging ps)"
  shows "handleMouseMove (Some ps) d ec (Some rect) e minSize True =
           (let (axis, cell) =
                  (if clientX e - left rect \<le> minSize then (PosCol, ec SideLeft)
                   else if right rect - clientX e \<le> minSize then (PosCol, ec SideRight)
                   else if top_rect rect - clientY e \<ge> - minSize then (PosRow, ec SideTop)
                   else if clientY e - bottom rect \<ge> - minSize then (PosRow, ec SideBottom)
                   else (PosUndefined, -1))
            in Inr (if cell \<noteq> activeHandle ps
                    then Some \<lparr>setHandle = Some cell, setDragging = None, setPosition = axis\<rparr>
                    else None))"
  using assms by (simp add: handleMouseMove_def edgeTest_def updateHandle_def Let_def)

theorem mouse_move_edge_tests_witness:
  "handleMouseMove (Some idle_state) span_doc ex_edgeCell (Some ex_rect)
       \<lparr>clientX = 102, clientY = 52\<rparr> 5 True
     = Inr (Some \<lparr>setHandle = Some 10, setDragging = None, setPosition = PosCol\<rparr>)
   \<and> handleMouseMove (Some idle_state) span_doc ex_edgeCell (Some ex_rect)
       \<lparr>clientX = 198, clientY = 52\<rparr> 5 True
     = Inr (Some \<lparr>setHandle = Some 20, setDragging = None, setPosition = PosCol\<rparr>)
   \<and> handleMouseMove (Some idle_state) span_doc ex_edgeCell (Some ex_rect)
       \<lparr>clientX = 150, clientY = 52\<rparr> 5 True
     = Inr (Some \<lparr>setHandle = Some 30, setDragging = None, setPosition = PosRow\<rparr>)
   \<and> handleMouseMove (Some idle_state) span_doc ex_edgeCell (Some ex_rect)
       \<lparr>clientX = 150, clientY = 78\<rparr> 5 True
     = Inr (Some \<lparr>setHandle = Some 40, setDragging = None, setPosition = PosRow\<rparr>)
   \<and> handleMouseMove (Some idle_state) span_doc ex_edgeCell (Some ex_rect)
       \<lparr>clientX = 150, clientY = 65\<rparr> 5 True
     = Inr None"
proof -
  have nd: "\<not> is_dragging (dragging idle_state)" by (simp add: idle_state_def)
  note inst = mouse_move_edge_tests [OF nd, of span_doc ex_edgeCell ex_rect _ 5]
  show ?thesis
    unfolding inst by (simp add: ex_rect_def ex_edgeCell_def idle_state_def)
qed

text \<open>
  C8: when \<open>lastColumnResizable\<close> is false and the mouse move resolves an edge of a cell
  whose span ends at the last grid column (\<open>colCount + colspan - 1 = width - 1\<close>), nothing
  is dispatched, so the active handle and the state stay as they are; with
  \<open>lastColumnResizable\<close> true the same move sets the handle.
\<close>

theorem last_column_suppressed:
  assumes "edgeTest rect e minSize = Some (axis, sd)" and "ec sd = cell" and "cell \<noteq> -1"
    and "table d = Some t"
    and "colCount (tableMap t) (cell - tableStart d) = Some c"
    and "nodeAfter d cell = Some n"
    and "c + colspan (attrs n) - 1 = int (width (tableMap t)) - 1"
  shows "handleMouseMove pluginState d ec (Some rect) e minSize False = Inr None
       \<and> (\<forall>ps. pluginState = Some ps \<and> \<not> is_dragging (dragging ps) \<and> cell \<noteq> activeHandle ps
            \<longrightarrow> handleMouseMove pluginState d ec (Some rect) e minSize True
                  = Inr (Some (updateHandle cell axis)))"
  using assms
  by (auto simp: handleMouseMove_def lastColumn_def Let_def split: option.splits)

theorem last_column_suppressed_witness:
  "edgeTest ex_rect \<lparr>clientX = 198, clientY = 65\<rparr> 5 = Some (PosCol, SideRight)
   \<and> colCount (tableMap span_table) (16 - tableStart span_doc) = Some 2
   \<and> nodeAfter span_doc 16 = Some (ex_cell 1 1 None)
   \<and> handleMouseMove (Some idle_state) span_doc (\<lambda>sd. 16) (Some ex_rect)
        \<lparr>clientX = 198, clientY = 65\<rparr> 5 False = Inr None
   \<and> handleMouseMove (Some idle_state) span_doc (\<lambda>sd. 16) (Some ex_rect)
        \<lparr>clientX = 198, clientY = 65\<rparr> 5 True
      = Inr (Some \<lparr>setHandle = Some 16, setDragging = None, setPosition = PosCol\<rparr>)"
proof -
  have e: "edgeTest ex_rect \<lparr>clientX = 198, clientY = 65\<rparr> 5 = Some (PosCol, SideRight)"
    by (simp add: edgeTest_def ex_rect_def)
  have t: "table span_doc = Some span_table" by (simp add: span_doc_def)
  have c: "colCount (tableMap span_table) (16 - tableStart span_doc) = Some 2"
    by (simp add: colCount_def span_defs)
  have n: "nodeAfter span_doc 16 = Some (ex_cell 1 1 None)"
    by (simp add: nodeAfter_def span_defs)
  have w: "2 + colspan (attrs (ex_cell 1 1 None)) - 1 = int (width (tableMap span_table)) - 1"
    by (simp add: span_defs)
  have "(16::int) \<noteq> -1" by simp
  note inst = last_column_suppressed [OF e refl this t c n w, of "Some idle_state"]
  have "handleMouseMove (Some idle_state) span_doc (\<lambda>sd. 16) (Some ex_rect)
        \<lparr>clientX = 198, clientY = 65\<rparr> 5 True = Inr (Some (updateHandle 16 PosCol))"
    using inst by (simp add: idle_state_def)
  then show ?thesis using inst e c n by (simp add: updateHandle_def)
qed

text \<open>
  C9: for a row element whose \<open>data-rowheight\<close> attribute is the comma-separated digit
  list \<open>"10,20"\<close>, the claim asks for the number sequence 10, 20 as \<open>rowheight\<close>, the
  sequence that \<open>getCellAttrs\<close> makes of the same text in \<open>data-colwidth\<close>.
  \<open>getRowAttrs\<close> accepts the list with the same pattern and then stores the attribute
  string \<open>"10,20"\<close> itself, without splitting it or converting the pieces.
\<close>

theorem getRowAttrs_not_number_sequence:
  "list_all (\<lambda>p. p \<noteq> [] \<and> list_all is_digit p) (split_comma ''10,20'')
   \<and> getRowAttrs (HTMLElement [(''data-rowheight'', ''10,20'')]) [] ''rowheight''
       = Some (Str ''10,20'')
   \<and> getRowAttrs (HTMLElement [(''data-rowheight'', ''10,20'')]) [] ''rowheight''
       \<noteq> Some (NumArr [Finite 10, Finite 20])
   \<and> getCellAttrs (\<lambda>s. NaN) (HTMLElement [(''data-colwidth'', ''10,20''), (''colspan'', ''2'')])
       [] ''colwidth'' = Some (NumArr [Finite 10, Finite 20])"
  by (simp add: getRowAttrs_def getCellAttrs_def getAttribute_def regexTest_def is_digit_def
      Number_def decimal_def spanAttr_def)

text \<open>
  C6: the operations that produce cell attributes keep \<open>colwidth\<close>, when present, at
  length \<open>colspan\<close>. \<open>getCellAttrs\<close> yields a width list only when its length is the
  parsed \<open>colspan\<close>, and \<open>null\<close> otherwise (the host's extra attributes are taken
  not to be named \<open>colwidth\<close> or \<open>colspan\<close>). \<open>zeroes(n)\<close> has length \<open>n\<close>. When every
  cell of the table satisfies the invariant and every cell of the target column spans that
  column, each step of \<open>updateColumnWidth\<close> carries a width sequence of length \<open>colspan\<close>,
  and every cell of the table after the transaction satisfies the invariant.
\<close>

theorem colwidth_length_preserved:
  "(''colwidth'' \<notin> fst ` set extraAttrs \<and> ''colspan'' \<notin> fst ` set extraAttrs \<longrightarrow>
      (case getCellAttrs other dm extraAttrs ''colwidth'' of
         Some (NumArr ws) \<Rightarrow>
           getCellAttrs other dm extraAttrs ''colspan'' = Some (Num (Finite (real (length ws))))
       | Some Null \<Rightarrow> True
       | None \<Rightarrow> (\<exists>s. dm = DomString s)
       | _ \<Rightarrow> False))
   \<and> (\<forall>z. zeroes n = Inr z \<longrightarrow> int (length z) = n)
   \<and> (updateColumnWidth d cell w = Inr tr \<and> table d = Some t \<and> lastColumn d cell = Inr k
        \<and> coversColumn t k \<and> (\<forall>p nd. nodeAt t p = Some nd \<longrightarrow> colwidthOk (attrs nd))
      \<longrightarrow> (\<forall>steps st. tr = Some steps \<and> st \<in> set steps
              \<longrightarrow> colwidthOk (snd st) \<and> colwidth (snd st) \<noteq> None)
          \<and> (\<exists>t'. table (dispatch d tr) = Some t'
                \<and> (\<forall>p nd. nodeAt t' p = Some nd \<longrightarrow> colwidthOk (attrs nd))))"
  using getCellAttrs_invariant [where extraAttrs = extraAttrs and other = other and dm = dm]
    zeroes_length [of n] dispatch_colwidthOk [of d cell w tr t k]
  by blast


theorem colwidth_length_preserved_witness:
  "getCellAttrs (\<lambda>s. NaN) (HTMLElement [(''data-colwidth'', ''10,20''), (''colspan'', ''2'')])
       [] ''colwidth'' = Some (NumArr [Finite 10, Finite 20])
   \<and> getCellAttrs (\<lambda>s. NaN) (HTMLElement [(''data-colwidth'', ''10,20''), (''colspan'', ''2'')])
       [] ''colspan'' = Some (Num (Finite 2))
   \<and> getCellAttrs (\<lambda>s. NaN) (HTMLElement [(''data-colwidth'', ''10,20''), (''colspan'', ''3'')])
       [] ''colwidth'' = Some Null
   \<and> zeroes 3 = Inr [Some 0, Some 0, Some 0]
   \<and> coversColumn span_table 1
   \<and> colwidthOk \<lparr>colspan = 3, rowspan = 1, colwidth = Some [Some 10, Some 150, Some 30],
         extra = []\<rparr>
   \<and> colwidthOk \<lparr>colspan = 1, rowspan = 1, colwidth = Some [Some 150], extra = []\<rparr>
   \<and> (\<exists>t'. table (dispatch span_doc (Some
     [(2, \<lparr>colspan = 3, rowspan = 1, colwidth = Some [Some 10, Some 150, Some 30], extra = []\<rparr>),
      (12, \<lparr>colspan = 1, rowspan = 1, colwidth = Some [Some 150], extra = []\<rparr>)])) = Some t'
        \<and> (\<exists>nd. nodeAt t' 1 = Some nd \<and> colwidthOk (attrs nd))
        \<and> (\<exists>nd. nodeAt t' 11 = Some nd \<and> colwidthOk (attrs nd)))"
proof -
  let ?el = "[(''data-colwidth'', ''10,20''), (''colspan'', ''2'')]"
  let ?x = "[] :: (string \<times> ((string \<times> string) list \<Rightarrow> jsval) option) list"
  let ?s1 = "(2 :: int, \<lparr>colspan = 3, rowspan = 1,
                colwidth = Some [Some 10, Some (150 :: real), Some 30], extra = []\<rparr>)"
  let ?s2 = "(12 :: int, \<lparr>colspan = 1, rowspan = 1, colwidth = Some [Some (150 :: real)],
                extra = []\<rparr>)"
  let ?tr = "Some [?s1, ?s2]"
  note inst = colwidth_length_preserved [where extraAttrs = ?x and other = "\<lambda>s. NaN"
      and dm = "HTMLElement ?el" and n = 3 and d = span_doc and cell = 12 and w = 150
      and tr = ?tr and t = span_table and k = 1]
  have x: "''colwidth'' \<notin> fst ` set ?x \<and> ''colspan'' \<notin> fst ` set ?x" by simp
  have cw: "getCellAttrs (\<lambda>s. NaN) (HTMLElement ?el) [] ''colwidth''
              = Some (NumArr [Finite 10, Finite 20])"
    by (simp add: getCellAttrs_def getAttribute_def regexTest_def is_digit_def Number_def
        decimal_def spanAttr_def)
  have cs: "getCellAttrs (\<lambda>s. NaN) (HTMLElement ?el) [] ''colspan'' = Some (Num (Finite 2))"
    using inst x cw by simp
  have nl: "getCellAttrs (\<lambda>s. NaN)
              (HTMLElement [(''data-colwidth'', ''10,20''), (''colspan'', ''3'')])
              [] ''colwidth'' = Some Null"
    by (simp add: getCellAttrs_def getAttribute_def regexTest_def is_digit_def Number_def
        decimal_def spanAttr_def)
  have z: "zeroes 3 = Inr [Some 0, Some 0, Some 0]"
    by (simp add: zeroes_def numeral_3_eq_3)
  have u: "updateColumnWidth span_doc 12 150 = Inr ?tr" by (rule span_steps)
  have t: "table span_doc = Some span_table" by (simp add: span_doc_def)
  have k: "lastColumn span_doc 12 = Inr 1"
    by (simp add: lastColumn_def colCount_def nodeAfter_def span_defs)
  have c: "coversColumn span_table 1"
    by (simp add: coversColumn_def colCount_def span_defs js_at_def upt_rec)
  have ok: "\<forall>p nd. nodeAt span_table p = Some nd \<longrightarrow> colwidthOk (attrs nd)"
    by (auto simp: span_defs colwidthOk_def split: if_splits)
  from inst u t k c ok have
    steps: "\<forall>steps st. ?tr = Some steps \<and> st \<in> set steps
              \<longrightarrow> colwidthOk (snd st) \<and> colwidth (snd st) \<noteq> None"
    and "\<exists>t'. table (dispatch span_doc ?tr) = Some t'
                \<and> (\<forall>p nd. nodeAt t' p = Some nd \<longrightarrow> colwidthOk (attrs nd))"
    by blast+
  then obtain t' where t': "table (dispatch span_doc ?tr) = Some t'"
    and all: "\<And>p nd. nodeAt t' p = Some nd \<Longrightarrow> colwidthOk (attrs nd)" by blast
  have "\<exists>t2. table (dispatch span_doc ?tr) = Some t2 \<and> nodeAt t2 1 \<noteq> None \<and> nodeAt t2 11 \<noteq> None"
    by (simp add: dispatch_def setNodeMarkup_def span_defs)
  then have e: "nodeAt t' 1 \<noteq> None" "nodeAt t' 11 \<noteq> None" using t' by auto
  have n1: "\<exists>nd. nodeAt t' 1 = Some nd \<and> colwidthOk (attrs nd)" using e(1) all by auto
  have n2: "\<exists>nd. nodeAt t' 11 = Some nd \<and> colwidthOk (attrs nd)" using e(2) all by auto
  have o1: "colwidthOk (snd ?s1)" using steps by simp
  have o2: "colwidthOk (snd ?s2)" using steps by simp
  show ?thesis using cw cs nl z c o1 o2 t' n1 n2 by simp
qed

text \<open>
  C5: on the column axis, for the boundary column right after the active cell's span,
  \<open>handleDecorations\<close> emits its markers in the order of the grid rows, one for each row
  where the slot to the right of the boundary belongs to another cell (or the boundary is
  the right edge of the grid) and the slot above belongs to another cell (or the row is
  the top row), and none for any other row; each marker sits at the end of the cell left
  of the boundary. The row axis is the same with rows and columns swapped. For an active
  cell that spans two columns and two rows, exactly one marker of the column axis and
  exactly one marker of the row axis sit at the end of that cell.
\<close>

theorem handleDecorations_markers:
  assumes "table d = Some t"
  shows "(handleDecorations d cell PosCol = Inr (Some ds) \<longrightarrow>
           (\<exists>c n. colCount (tableMap t) (cell - tableStart d) = Some c \<and> nodeAfter d cell = Some n
              \<and> list_all2 (\<lambda>dc row. markerOf t (tableStart d) ''column-resize-handle''
                             (slot (tableMap t) (int row) (c + colspan (attrs n) - 1)) dc)
                  ds (filter (specColMarker (tableMap t) (c + colspan (attrs n)))
                        [0..<height (tableMap t)])))
       \<and> (handleDecorations d cell PosRow = Inr (Some ds) \<longrightarrow>
           (\<exists>r n. rowCount (tableMap t) (cell - tableStart d) = Some r \<and> nodeAfter d cell = Some n
              \<and> list_all2 (\<lambda>dc col. markerOf t (tableStart d) ''row-resize-handle''
                             (slot (tableMap t) (r + rowspan (attrs n) - 1) (int col)) dc)
                  ds (filter (specRowMarker (tableMap t) (r + rowspan (attrs n)))
                        [0..<width (tableMap t)])))
       \<and> (blockAt (tableMap t) a r0 c0 \<and> nodeAt t a = Some na \<and> endsDistinct t a
            \<and> colspan (attrs na) = 2 \<and> rowspan (attrs na) = 2
            \<and> colCount (tableMap t) a = Some (int c0) \<and> rowCount (tableMap t) a = Some (int r0)
          \<longrightarrow> (handleDecorations d (tableStart d + a) PosCol = Inr (Some ds)
                \<longrightarrow> length (filter (\<lambda>dc. pos dc = tableStart d + a + nodeSize na - 1) ds) = 1)
              \<and> (handleDecorations d (tableStart d + a) PosRow = Inr (Some ds)
                \<longrightarrow> length (filter (\<lambda>dc. pos dc = tableStart d + a + nodeSize na - 1) ds) = 1))"
  using handleDecorations_col [of d cell ds t] handleDecorations_row [of d cell ds t]
    block_col_count [of d a ds t r0 c0 na] block_row_count [of d a ds t r0 c0 na] assms
  by blast

theorem handleDecorations_markers_witness:
  "handleDecorations block_doc 2 PosCol = Inr (Some
     [\<lparr>pos = 5, className = ''column-resize-handle''\<rparr>,
      \<lparr>pos = 25, className = ''column-resize-handle''\<rparr>])
   \<and> handleDecorations block_doc 2 PosRow = Inr (Some
     [\<lparr>pos = 5, className = ''row-resize-handle''\<rparr>,
      \<lparr>pos = 15, className = ''row-resize-handle''\<rparr>])
   \<and> blockAt (tableMap block_table) 1 0 0 \<and> endsDistinct block_table 1
   \<and> filter (specColMarker (tableMap block_table) 2) [0..<3] = [0, 2]
   \<and> filter (specRowMarker (tableMap block_table) 2) [0..<3] = [0, 2]
   \<and> length (filter (\<lambda>dc. pos dc = 5)
         [\<lparr>pos = 5, className = ''column-resize-handle''\<rparr>,
          \<lparr>pos = 25, className = ''column-resize-handle''\<rparr>]) = 1
   \<and> length (filter (\<lambda>dc. pos dc = 5)
         [\<lparr>pos = 5, className = ''row-resize-handle''\<rparr>,
          \<lparr>pos = 15, className = ''row-resize-handle''\<rparr>]) = 1"
proof -
  let ?cs = "[\<lparr>pos = 5, className = ''column-resize-handle''\<rparr>,
              \<lparr>pos = 25, className = ''column-resize-handle''\<rparr>]"
  let ?rs = "[\<lparr>pos = 5, className = ''row-resize-handle''\<rparr>,
              \<lparr>pos = 15, className = ''row-resize-handle''\<rparr>]"
  let ?na = "ex_cell 2 2 None"
  have t: "table block_doc = Some block_table" by (simp add: block_doc_def)
  have s: "tableStart block_doc + 1 = 2" by (simp add: block_doc_def)
  have hc: "handleDecorations block_doc 2 PosCol = Inr (Some ?cs)"
    by (simp add: handleDecorations_def colTest_def widgetAt_def js_at_def colCount_def
        nodeAfter_def block_defs upt_rec)
  have hr: "handleDecorations block_doc 2 PosRow = Inr (Some ?rs)"
    by (simp add: handleDecorations_def rowTest_def widgetAt_def js_at_def rowCount_def
        nodeAfter_def block_defs upt_rec)
  have b: "blockAt (tableMap block_table) 1 0 0"
    by (simp add: blockAt_def slot_def js_at_def block_defs upt_rec)
  have e: "endsDistinct block_table 1" by (simp add: endsDistinct_def block_defs)
  have n: "nodeAt block_table 1 = Some ?na" by (simp add: block_defs)
  have sp: "colspan (attrs ?na) = 2 \<and> rowspan (attrs ?na) = 2" by (simp add: ex_cell_def)
  have cc: "colCount (tableMap block_table) 1 = Some (int 0)
            \<and> rowCount (tableMap block_table) 1 = Some (int 0)"
    by (simp add: colCount_def rowCount_def block_defs)
  have fc: "filter (specColMarker (tableMap block_table) 2) [0..<3] = [0, 2]"
    by (simp add: specColMarker_def slot_def js_at_def block_defs upt_rec)
  have fr: "filter (specRowMarker (tableMap block_table) 2) [0..<3] = [0, 2]"
    by (simp add: specRowMarker_def slot_def js_at_def block_defs upt_rec)
  have e5: "tableStart block_doc + 1 + nodeSize ?na - 1 = 5"
    by (simp add: block_defs)
  have "length (filter (\<lambda>dc. pos dc = tableStart block_doc + 1 + nodeSize ?na - 1) ?cs) = 1"
    using handleDecorations_markers [OF t, where a = 1 and ds = ?cs and na = ?na
        and ?r0.0 = 0 and ?c0.0 = 0] b e n sp cc hc s
    by simp
  then have c1: "length (filter (\<lambda>dc. pos dc = 5) ?cs) = 1" unfolding e5 .
  have "length (filter (\<lambda>dc. pos dc = tableStart block_doc + 1 + nodeSize ?na - 1) ?rs) = 1"
    using handleDecorations_markers [OF t, where a = 1 and ds = ?rs and na = ?na
        and ?r0.0 = 0 and ?c0.0 = 0] b e n sp cc hr s
    by simp
  then have r1: "length (filter (\<lambda>dc. pos dc = 5) ?rs) = 1" unfolding e5 .
  show ?thesis using hc hr b e fc fr c1 r1 by blast
qed

end
